theory Spec2Isabelle
  imports Complex_Main
begin

section \<open>The intent resolver of \<open>src/app/api/agent/route.ts\<close>\<close>

text \<open>
  The route turns a free-text instruction, the current parameter snapshot and the
  mask flag into an operation tag, an updated snapshot, a prompt and a user message.
  It has a rule-based resolver (\<open>mockAgentResponse\<close>), the validation tail of the
  LLM-backed resolver (\<open>callOpenAI\<close>) and the request handler (\<open>POST\<close>).

  Conventions of the embedding.
  \<^item> A JavaScript string is a \<^typ>\<open>string\<close>. In a message one \<^typ>\<open>char\<close> is one
    code unit, so the messages of the model are those whose code units lie in
    \<open>U+0000\<close>..\<open>U+00FF\<close>. On these \<open>toLowerCase\<close> moves \<open>A\<close>..\<open>Z\<close> and the
    upper-case letters of \<open>U+00C0\<close>..\<open>U+00DE\<close>, \<open>\s\<close> and \<open>trim\<close> know the six
    ASCII blanks and the no-break space \<open>U+00A0\<close>, \<open>.\<close> excludes \<open>\n\<close> and \<open>\r\<close>,
    and \<open>\w\<close>, \<open>\b\<close> are ASCII (the patterns have neither the \<open>i\<close> nor the \<open>u\<close>
    flag). The emoji of the fixed response texts lie outside that range and are
    named constants, spelled by their UTF-8 bytes.
  \<^item> A JavaScript number is a \<^typ>\<open>real\<close>: the resolver only adds the constants
    15, 30, 45 and takes \<open>Math.max\<close>/\<open>Math.min\<close> with a bound.
  \<^item> An optional field (\<open>color_palette?\<close>, \<open>edit_mode?\<close>, \<open>subject_description?\<close>)
    is an \<^typ>\<open>'a option\<close>, \<open>None\<close> standing for \<open>undefined\<close>.
\<close>

subsection \<open>String primitives\<close>

definition is_upper :: "char \<Rightarrow> bool" where
  "is_upper c = (65 \<le> (of_char c :: nat) \<and> (of_char c :: nat) \<le> 90)"

definition is_lower :: "char \<Rightarrow> bool" where
  "is_lower c = (97 \<le> (of_char c :: nat) \<and> (of_char c :: nat) \<le> 122)"

definition is_digit :: "char \<Rightarrow> bool" where
  "is_digit c = (48 \<le> (of_char c :: nat) \<and> (of_char c :: nat) \<le> 57)"

text \<open>The class \<open>\w\<close> that decides \<open>\b\<close>: letters, digits and the underscore.\<close>

definition is_word :: "char \<Rightarrow> bool" where
  "is_word c = (is_upper c \<or> is_lower c \<or> is_digit c \<or> c = CHR ''_'')"

text \<open>
  The class \<open>\s\<close>, which is also what \<open>trim\<close> strips: tab, LF, VT, FF, CR, space
  and the no-break space \<open>U+00A0\<close>.
\<close>

definition is_space :: "char \<Rightarrow> bool" where
  "is_space c =
     ((9 \<le> (of_char c :: nat) \<and> (of_char c :: nat) \<le> 13) \<or> c = CHR '' ''
      \<or> (of_char c :: nat) = 160)"

definition is_line_terminator :: "char \<Rightarrow> bool" where
  "is_line_terminator c = ((of_char c :: nat) = 10 \<or> (of_char c :: nat) = 13)"

text \<open>
  The upper-case letters of \<open>U+00C0\<close>..\<open>U+00DE\<close>; \<open>U+00D7\<close> is the multiplication
  sign. Like \<open>A\<close>..\<open>Z\<close>, each has its lower-case letter 32 places further.
\<close>

definition is_upper_latin1 :: "char \<Rightarrow> bool" where
  "is_upper_latin1 c =
     (192 \<le> (of_char c :: nat) \<and> (of_char c :: nat) \<le> 222 \<and> (of_char c :: nat) \<noteq> 215)"

definition toLowerChar :: "char \<Rightarrow> char" where
  "toLowerChar c =
     (if is_upper c \<or> is_upper_latin1 c then char_of ((of_char c :: nat) + 32) else c)"

definition toLowerCase :: "string \<Rightarrow> string" where
  "toLowerCase s = map toLowerChar s"

definition trim :: "string \<Rightarrow> string" where
  "trim s = rev (dropWhile is_space (rev (dropWhile is_space s)))"

definition startsWith :: "string \<Rightarrow> string \<Rightarrow> bool" where
  "startsWith s p = (take (length p) s = p)"

text \<open>\<open>String.prototype.includes\<close>: the needle occurs at some position.\<close>

fun str_includes :: "string \<Rightarrow> string \<Rightarrow> bool" where
  "str_includes [] sub = (sub = [])"
| "str_includes (c # s) sub = (startsWith (c # s) sub \<or> str_includes s sub)"

subsection \<open>The regular expressions\<close>

text \<open>
  The fragment of ECMAScript regular expressions that the route uses, with the
  backtracking engine's priorities. \<open>Group\<close> is a capturing group; a non-capturing
  group \<open>(?:r)\<close> is just \<open>r\<close>.
\<close>

datatype regex =
    Lit string
  | Dot
  | Space
  | WordB
  | EndOfInput
  | Seq regex regex
  | Alt regex regex
  | Opt regex
  | Star regex
  | StarLazy regex
  | Group regex

text \<open>
  A position of the matcher: the character just before it (\<open>None\<close> at the start of the
  input), the input still to read, and the captures completed so far.
\<close>

record mstate =
  prev :: "char option"
  rest :: string
  caps :: "string list"

definition word_before :: "mstate \<Rightarrow> bool" where
  "word_before st = (case prev st of None \<Rightarrow> False | Some c \<Rightarrow> is_word c)"

definition word_after :: "mstate \<Rightarrow> bool" where
  "word_after st = (case rest st of [] \<Rightarrow> False | c # _ \<Rightarrow> is_word c)"

fun read_lit :: "string \<Rightarrow> mstate \<Rightarrow> mstate list" where
  "read_lit [] st = [st]"
| "read_lit (c # w) st =
     (case rest st of
        [] \<Rightarrow> []
      | x # xs \<Rightarrow> if x = c then read_lit w (st\<lparr>prev := Some x, rest := xs\<rparr>) else [])"

definition read_class :: "(char \<Rightarrow> bool) \<Rightarrow> mstate \<Rightarrow> mstate list" where
  "read_class P st =
     (case rest st of
        [] \<Rightarrow> []
      | x # xs \<Rightarrow> if P x then [st\<lparr>prev := Some x, rest := xs\<rparr>] else [])"

text \<open>
  An iteration of a quantifier with minimum 0 that reads nothing is rejected by the
  engine; \<open>progress\<close> keeps the outcomes that moved.
\<close>

definition progress :: "mstate \<Rightarrow> mstate list \<Rightarrow> mstate list" where
  "progress st outs = filter (\<lambda>s. length (rest s) < length (rest st)) outs"

function repeat_greedy :: "(mstate \<Rightarrow> mstate list) \<Rightarrow> mstate \<Rightarrow> mstate list" where
  "repeat_greedy f st = concat (map (repeat_greedy f) (progress st (f st))) @ [st]"
  by pat_completeness auto
termination
  by (relation "measure (\<lambda>(f, st). length (rest st))") (auto simp: progress_def)

function repeat_lazy :: "(mstate \<Rightarrow> mstate list) \<Rightarrow> mstate \<Rightarrow> mstate list" where
  "repeat_lazy f st = st # concat (map (repeat_lazy f) (progress st (f st)))"
  by pat_completeness auto
termination
  by (relation "measure (\<lambda>(f, st). length (rest st))") (auto simp: progress_def)

text \<open>
  Both equations call themselves under \<open>map\<close>; they are unfolded by hand where
  needed and kept out of the simplifier.
\<close>

declare repeat_greedy.simps [simp del] repeat_lazy.simps [simp del]

text \<open>
  \<open>run r st\<close> lists every way \<open>r\<close> can match at \<open>st\<close>, in the order in which the
  backtracking engine tries them; the engine's answer is the first.
\<close>

primrec run :: "regex \<Rightarrow> mstate \<Rightarrow> mstate list" where
  "run (Lit w) = (\<lambda>st. read_lit w st)"
| "run Dot = (\<lambda>st. read_class (\<lambda>c. \<not> is_line_terminator c) st)"
| "run Space = (\<lambda>st. read_class is_space st)"
| "run WordB = (\<lambda>st. if word_before st \<noteq> word_after st then [st] else [])"
| "run EndOfInput = (\<lambda>st. if rest st = [] then [st] else [])"
| "run (Seq r1 r2) = (\<lambda>st. concat (map (run r2) (run r1 st)))"
| "run (Alt r1 r2) = (\<lambda>st. run r1 st @ run r2 st)"
| "run (Opt r) = (\<lambda>st. progress st (run r st) @ [st])"
| "run (Star r) = (\<lambda>st. repeat_greedy (run r) st)"
| "run (StarLazy r) = (\<lambda>st. repeat_lazy (run r) st)"
| "run (Group r) =
     (\<lambda>st. map (\<lambda>s. s\<lparr>caps := caps s @ [take (length (rest st) - length (rest s)) (rest st)]\<rparr>)
               (run r st))"

text \<open>
  \<open>RegExp.prototype.exec\<close> without the \<open>g\<close> flag: the leftmost start position with a
  match, and the captures of the first match there.
\<close>

fun exec_at :: "regex \<Rightarrow> char option \<Rightarrow> string \<Rightarrow> string list option" where
  "exec_at r p [] =
     (case run r \<lparr>prev = p, rest = [], caps = []\<rparr> of [] \<Rightarrow> None | m # _ \<Rightarrow> Some (caps m))"
| "exec_at r p (c # cs) =
     (case run r \<lparr>prev = p, rest = c # cs, caps = []\<rparr> of
        [] \<Rightarrow> exec_at r (Some c) cs
      | m # _ \<Rightarrow> Some (caps m))"

definition re_match :: "regex \<Rightarrow> string \<Rightarrow> string list option" where
  "re_match r s = exec_at r None s"

definition re_test :: "regex \<Rightarrow> string \<Rightarrow> bool" where
  "re_test r s = (re_match r s \<noteq> None)"

text \<open>Shorthands to write the patterns as the source spells them.\<close>

fun cat :: "regex list \<Rightarrow> regex" where
  "cat [] = Lit []"
| "cat [r] = r"
| "cat (r # rs) = Seq r (cat rs)"

fun alts :: "regex list \<Rightarrow> regex" where
  "alts [] = Lit []"
| "alts [r] = r"
| "alts (r # rs) = Alt r (alts rs)"

definition Plus :: "regex \<Rightarrow> regex" where
  "Plus r = Seq r (Star r)"

definition PlusLazy :: "regex \<Rightarrow> regex" where
  "PlusLazy r = Seq r (StarLazy r)"

subsection \<open>The patterns of the rule-based resolver\<close>

definition words :: "string list \<Rightarrow> regex" where
  "words ws = alts (map Lit ws)"

definition removal_verbs :: "string list" where
  "removal_verbs = [''remove'', ''delete'', ''erase'', ''get rid of'', ''clear'', ''eliminate'']"

definition replace_verbs :: "string list" where
  "replace_verbs = [''replace'', ''change'', ''swap'', ''turn'', ''convert'']"

definition connectors :: "string list" where
  "connectors = [''to'', ''into'', ''with'']"

definition add_verbs :: "string list" where
  "add_verbs = [''add'', ''put'', ''place'', ''insert'', ''include'']"

text \<open>\<^verbatim>\<open>/\b(remove|delete|erase|get rid of|clear|eliminate)\b/\<close>\<close>

definition removal_pattern :: regex where
  "removal_pattern = cat [WordB, Group (words removal_verbs), WordB]"

text \<open>\<^verbatim>\<open>/(?:remove|delete|erase|get rid of|clear|eliminate)\s+(?:the\s+)?(.+?)(?:\s+from|\s+in|\s*$)/\<close>\<close>

definition removal_capture :: regex where
  "removal_capture =
     cat [words removal_verbs, Plus Space, Opt (cat [Lit ''the'', Plus Space]),
          Group (PlusLazy Dot),
          alts [cat [Plus Space, Lit ''from''], cat [Plus Space, Lit ''in''],
                cat [Star Space, EndOfInput]]]"

text \<open>\<^verbatim>\<open>/\b(replace|change|swap|turn|convert)\b.*\b(to|into|with)\b/\<close>\<close>

definition replace_pattern :: regex where
  "replace_pattern =
     cat [WordB, Group (words replace_verbs), WordB, Star Dot,
          WordB, Group (words connectors), WordB]"

text \<open>\<^verbatim>\<open>/(?:replace|change|swap|turn|convert)\s+(?:the\s+)?(.+?)\s+(?:to|into|with)\s+(.+?)(?:\s*$)/\<close>\<close>

definition replace_capture :: regex where
  "replace_capture =
     cat [words replace_verbs, Plus Space, Opt (cat [Lit ''the'', Plus Space]),
          Group (PlusLazy Dot), Plus Space, words connectors, Plus Space,
          Group (PlusLazy Dot), cat [Star Space, EndOfInput]]"

text \<open>\<^verbatim>\<open>/\b(add|put|place|insert|include)\b/\<close>\<close>

definition add_pattern :: regex where
  "add_pattern = cat [WordB, Group (words add_verbs), WordB]"

text \<open>\<^verbatim>\<open>/(?:add|put|place|insert|include)\s+(?:a\s+|some\s+)?(.+?)(?:\s+here|\s+there|\s+in|\s+on|\s*$)/\<close>\<close>

definition add_capture :: regex where
  "add_capture =
     cat [words add_verbs, Plus Space,
          Opt (alts [cat [Lit ''a'', Plus Space], cat [Lit ''some'', Plus Space]]),
          Group (PlusLazy Dot),
          alts [cat [Plus Space, Lit ''here''], cat [Plus Space, Lit ''there''],
                cat [Plus Space, Lit ''in''], cat [Plus Space, Lit ''on''],
                cat [Star Space, EndOfInput]]]"

text \<open>\<^verbatim>\<open>/\b(zoom|rotate|tilt|angle|pan)\b/\<close> and \<^verbatim>\<open>/\b(add|remove|change|style)\b/\<close>\<close>

definition camera_pattern :: regex where
  "camera_pattern =
     cat [WordB, Group (words [''zoom'', ''rotate'', ''tilt'', ''angle'', ''pan'']), WordB]"

definition camera_exclusion :: regex where
  "camera_exclusion =
     cat [WordB, Group (words [''add'', ''remove'', ''change'', ''style'']), WordB]"

text \<open>\<^verbatim>\<open>/\b(create|generate|imagine|make me a|design)\b/\<close>\<close>

definition generate_pattern :: regex where
  "generate_pattern =
     cat [WordB,
          Group (words [''create'', ''generate'', ''imagine'', ''make me a'', ''design'']),
          WordB]"

subsection \<open>What the patterns say, without the engine\<close>

text \<open>
  A second, declarative reading of the patterns, against which the engine is checked
  below. A position is the pair of the text before it and the text after it.
  \<open>boundary a b\<close> is \<open>\b\<close> between \<open>a\<close> and \<open>b\<close>: exactly one of the two
  neighbouring characters is a word character.
\<close>

definition boundary :: "string \<Rightarrow> string \<Rightarrow> bool" where
  "boundary a b = ((a \<noteq> [] \<and> is_word (last a)) \<noteq> (b \<noteq> [] \<and> is_word (hd b)))"

text \<open>Zero or more iterations, each of which reads at least one character.\<close>

inductive iterate ::
  "(string \<times> string \<Rightarrow> (string \<times> string) set) \<Rightarrow> string \<times> string \<Rightarrow> string \<times> string \<Rightarrow> bool"
  for S where
    stop: "iterate S q q"
  | more: "q' \<in> S q \<Longrightarrow> length (snd q') < length (snd q) \<Longrightarrow> iterate S q' q''
           \<Longrightarrow> iterate S q q''"

text \<open>\<open>spans r q\<close>: the positions at which a match of \<open>r\<close> that starts at \<open>q\<close> can end.\<close>

primrec spans :: "regex \<Rightarrow> string \<times> string \<Rightarrow> (string \<times> string) set" where
  "spans (Lit w) = (\<lambda>q. {(fst q @ w, b') | b'. snd q = w @ b'})"
| "spans Dot = (\<lambda>q. {(fst q @ [c], b') | c b'. snd q = c # b' \<and> \<not> is_line_terminator c})"
| "spans Space = (\<lambda>q. {(fst q @ [c], b') | c b'. snd q = c # b' \<and> is_space c})"
| "spans WordB = (\<lambda>q. if boundary (fst q) (snd q) then {q} else {})"
| "spans EndOfInput = (\<lambda>q. if snd q = [] then {q} else {})"
| "spans (Seq r1 r2) = (\<lambda>q. \<Union>q' \<in> spans r1 q. spans r2 q')"
| "spans (Alt r1 r2) = (\<lambda>q. spans r1 q \<union> spans r2 q)"
| "spans (Opt r) = (\<lambda>q. insert q {q' \<in> spans r q. length (snd q') < length (snd q)})"
| "spans (Star r) = (\<lambda>q. {q'. iterate (spans r) q q'})"
| "spans (StarLazy r) = (\<lambda>q. {q'. iterate (spans r) q q'})"
| "spans (Group r) = spans r"

text \<open>A matcher state stands at a position: same text ahead, same character behind.\<close>

definition stands_at :: "string \<times> string \<Rightarrow> mstate \<Rightarrow> bool" where
  "stands_at q st =
     (prev st = (if fst q = [] then None else Some (last (fst q))) \<and> rest st = snd q)"

text \<open>
  \<open>whole_word ws l\<close>: one of the words \<open>ws\<close> occurs in \<open>l\<close> with a \<open>\b\<close> on each side.
  \<open>verb_then_connector l\<close>: a replace-verb occurs as a whole word, and after it, with
  no line break in between, a connector occurs as a whole word.
\<close>

definition whole_word :: "string list \<Rightarrow> string \<Rightarrow> bool" where
  "whole_word ws l =
     (\<exists>a v b. l = a @ v @ b \<and> v \<in> set ws \<and> boundary a (v @ b) \<and> boundary (a @ v) b)"

definition verb_then_connector :: "string \<Rightarrow> bool" where
  "verb_then_connector l =
     (\<exists>a v b c d. l = a @ v @ b @ c @ d \<and> v \<in> set replace_verbs \<and> c \<in> set connectors \<and>
        boundary a (v @ b @ c @ d) \<and> boundary (a @ v) (b @ c @ d) \<and>
        (\<forall>x \<in> set b. \<not> is_line_terminator x) \<and>
        boundary (a @ v @ b) (c @ d) \<and> boundary (a @ v @ b @ c) d)"

subsection \<open>The data model of \<open>src/app/lib/types.ts\<close>\<close>

record CameraParams =
  yaw :: real
  pitch :: real
  roll :: real
  fov :: real

record FIBOParams =
  camera :: CameraParams
  lighting :: string
  color_palette :: "string option"
  composition :: string
  edit_mode :: "string option"
  subject_description :: "string option"
  realism_level :: string
  output_format :: string

datatype OperationType =
    inpaint_remove
  | inpaint_replace
  | inpaint_add
  | style_transfer
  | generate_new
  | camera_adjust

text \<open>The string behind each tag, for \<open>startsWith\<close> and for the tags an upstream model sends.\<close>

fun operation_name :: "OperationType \<Rightarrow> string" where
  "operation_name inpaint_remove = ''inpaint_remove''"
| "operation_name inpaint_replace = ''inpaint_replace''"
| "operation_name inpaint_add = ''inpaint_add''"
| "operation_name style_transfer = ''style_transfer''"
| "operation_name generate_new = ''generate_new''"
| "operation_name camera_adjust = ''camera_adjust''"

text \<open>
  \<open>AgentResponse\<close>. The rule-based resolver fills it with a boolean, a parameter
  record and strings; the LLM-backed resolver passes on whatever values the upstream
  model sent, so the field types are parameters.
\<close>

record ('m, 'p, 's) AgentResponse =
  operation :: OperationType
  needsMask :: 'm
  params :: 'p
  prompt :: 's
  response :: 's

subsection \<open>The fixed texts\<close>

definition sparkles :: string where
  "sparkles = [CHR 0xE2, CHR 0x9C, CHR 0xA8]"

definition wastebasket :: string where
  "wastebasket = [CHR 0xF0, CHR 0x9F, CHR 0x97, CHR 0x91, CHR 0xEF, CHR 0xB8, CHR 0x8F]"

definition arrows :: string where
  "arrows = [CHR 0xF0, CHR 0x9F, CHR 0x94, CHR 0x84]"

definition camera_emoji :: string where
  "camera_emoji = [CHR 0xF0, CHR 0x9F, CHR 0x93, CHR 0xB7]"

definition palette :: string where
  "palette = [CHR 0xF0, CHR 0x9F, CHR 0x8E, CHR 0xA8]"

definition target :: string where
  "target = [CHR 0xF0, CHR 0x9F, CHR 0x8E, CHR 0xAF]"

definition dquote :: string where
  "dquote = [CHR 0x22]"

definition newline :: string where
  "newline = [CHR 0x0A]"

definition default_response :: string where
  "default_response = sparkles @ '' Got it! Click Generate to apply changes.''"

subsection \<open>The rule-based resolver: \<open>mockAgentResponse\<close>\<close>

text \<open>
  The chain of \<open>if\<close>/\<open>else if\<close> that picks the operation and writes
  \<open>subject_description\<close>, \<open>prompt\<close> and \<open>response\<close>. It returns the operation,
  the parameters, the prompt and the response, in this order. \<open>match[1]\<close> and
  \<open>match[2]\<close> are the first and second capture.
\<close>

definition classify ::
  "string \<Rightarrow> string \<Rightarrow> FIBOParams \<Rightarrow> bool \<Rightarrow> OperationType \<times> FIBOParams \<times> string \<times> string"
where
  "classify userMessage lower updatedParams hasMask =
    (if re_test removal_pattern lower then
       (let sd = (case re_match removal_capture lower of
                    Some (g1 # _) \<Rightarrow> trim g1
                  | _ \<Rightarrow> userMessage)
        in (inpaint_remove,
            updatedParams\<lparr>subject_description := Some sd\<rparr>,
            ''Remove '' @ sd @ '' from the marked area and fill with natural background'',
            wastebasket @ '' I'll remove '' @ dquote @ sd @ dquote
              @ '' from the marked area. Click Generate!''))
     else if re_test replace_pattern lower then
       (case re_match replace_capture lower of
          Some (g1 # g2 # _) \<Rightarrow>
            (inpaint_replace,
             updatedParams\<lparr>subject_description := Some (''Replace '' @ g1 @ '' with '' @ g2)\<rparr>,
             ''Replace '' @ g1 @ '' with '' @ g2 @ '' in the marked area, blend naturally'',
             arrows @ '' I'll replace that for you. Click Generate!'')
        | _ \<Rightarrow>
            (inpaint_replace, updatedParams, userMessage,
             arrows @ '' I'll replace that for you. Click Generate!''))
     else if re_test add_pattern lower then
       (let sd = (case re_match add_capture lower of
                    Some (g1 # _) \<Rightarrow> trim g1
                  | _ \<Rightarrow> userMessage)
        in (if hasMask then inpaint_add else style_transfer,
            updatedParams\<lparr>subject_description := Some sd\<rparr>,
            ''Add '' @ sd @ '' in the marked area, blend seamlessly'',
            sparkles @ '' I'll add '' @ dquote @ sd @ dquote
              @ '' to the marked area. Click Generate!''))
     else if re_test camera_pattern lower \<and> \<not> re_test camera_exclusion lower then
       (camera_adjust, updatedParams, userMessage,
        camera_emoji @ '' Camera adjusted! Click Generate to see the new angle.'')
     else if re_test generate_pattern lower \<and> \<not> hasMask then
       (generate_new,
        updatedParams\<lparr>subject_description := Some userMessage\<rparr>,
        userMessage,
        palette @ '' I'll generate that for you. Click Generate!'')
     else
       (style_transfer,
        updatedParams\<lparr>subject_description := Some userMessage\<rparr>,
        userMessage,
        palette @ '' I'll apply those changes. Click Generate!''))"

text \<open>The four camera instructions, each an \<open>if\<close> of its own, in the source's order.\<close>

definition left_amount :: "string \<Rightarrow> real" where
  "left_amount lower =
     (if str_includes lower ''slight'' then - 15
      else if str_includes lower ''hard'' then - 45 else - 30)"

definition right_amount :: "string \<Rightarrow> real" where
  "right_amount lower =
     (if str_includes lower ''slight'' then 15
      else if str_includes lower ''hard'' then 45 else 30)"

definition parse_camera :: "string \<Rightarrow> CameraParams \<Rightarrow> CameraParams" where
  "parse_camera lower cam =
    (let c1 = (if str_includes lower ''left'' \<and> \<not> str_includes lower ''tilt''
               then cam\<lparr>yaw := max (- 180) (yaw cam + left_amount lower)\<rparr> else cam);
         c2 = (if str_includes lower ''right'' \<and> \<not> str_includes lower ''copyright''
                  \<and> \<not> str_includes lower ''tilt''
               then c1\<lparr>yaw := min 180 (yaw c1 + right_amount lower)\<rparr> else c1);
         c3 = (if str_includes lower ''zoom in'' \<or> str_includes lower ''closer''
               then c2\<lparr>fov := max 10 (fov c2 - 15)\<rparr> else c2);
         c4 = (if str_includes lower ''zoom out'' \<or> str_includes lower ''wider''
               then c3\<lparr>fov := min 120 (fov c3 + 15)\<rparr> else c3)
     in c4)"

text \<open>The four lighting checks and the three palette checks, again one \<open>if\<close> each.\<close>

definition parse_lighting :: "string \<Rightarrow> string \<Rightarrow> string" where
  "parse_lighting lower l0 =
    (let l1 = (if str_includes lower ''dramatic'' then ''dramatic_side'' else l0);
         l2 = (if str_includes lower ''soft'' then ''studio_soft'' else l1);
         l3 = (if str_includes lower ''natural'' \<or> str_includes lower ''daylight''
               then ''natural_daylight'' else l2);
         l4 = (if str_includes lower ''neon'' then ''neon'' else l3)
     in l4)"

definition parse_color :: "string \<Rightarrow> string option \<Rightarrow> string option" where
  "parse_color lower c0 =
    (let c1 = (if str_includes lower ''warm'' then Some ''warm'' else c0);
         c2 = (if str_includes lower ''cool'' \<or> str_includes lower ''cold''
               then Some ''cool'' else c1);
         c3 = (if str_includes lower ''vibrant'' then Some ''vibrant'' else c2)
     in c3)"

definition mask_operations :: "OperationType list" where
  "mask_operations = [inpaint_remove, inpaint_replace, inpaint_add]"

text \<open>\<open>updatedParams.subject_description || 'the area'\<close>\<close>

definition objectName :: "FIBOParams \<Rightarrow> string" where
  "objectName p =
     (case subject_description p of
        None \<Rightarrow> ''the area''
      | Some s \<Rightarrow> if s = [] then ''the area'' else s)"

definition draw_first_response :: "FIBOParams \<Rightarrow> string" where
  "draw_first_response p =
     target @ '' Please draw on '' @ objectName p @ '' first!'' @ newline @ newline
       @ ''Use the brush tool to mark the area, then click '' @ dquote @ ''Generate''
       @ dquote @ ''.''"

definition mockAgentResponse ::
  "string \<Rightarrow> FIBOParams \<Rightarrow> bool \<Rightarrow> (bool, FIBOParams, string) AgentResponse"
where
  "mockAgentResponse userMessage currentParams hasMask =
    (let lower = toLowerCase userMessage;
         (operation, p0, prompt, response) = classify userMessage lower currentParams hasMask;
         p1 = p0\<lparr>camera := parse_camera lower (camera p0)\<rparr>;
         p2 = p1\<lparr>lighting := parse_lighting lower (lighting p1)\<rparr>;
         p3 = p2\<lparr>color_palette := parse_color lower (color_palette p2)\<rparr>;
         updatedParams =
           p3\<lparr>edit_mode :=
                Some (if startsWith (operation_name operation) ''inpaint''
                      then ''mask'' else ''full'')\<rparr>;
         needsMask = (operation \<in> set mask_operations \<and> \<not> hasMask)
     in \<lparr>operation = operation,
         needsMask = needsMask,
         params = updatedParams,
         prompt = prompt,
         response = (if needsMask then draw_first_response updatedParams else response)\<rparr>)"

subsection \<open>The LLM-backed resolver: \<open>callOpenAI\<close>\<close>

text \<open>
  What \<open>JSON.parse\<close> returns. An object is the list of its members (keys distinct, as
  \<open>JSON.parse\<close> leaves them).
\<close>

datatype json =
    JNull
  | JBool bool
  | JNum real
  | JStr string
  | JArr "json list"
  | JObj "(string \<times> json) list"

datatype error = FetchFailed | ApiError | EmptyResponse | SyntaxError | TypeError

text \<open>
  Reading a property \<open>parsed.k\<close> for the five names the route reads: a \<open>TypeError\<close> on
  \<open>null\<close>, the member on an object, \<open>undefined\<close> (\<open>None\<close>) otherwise.
\<close>

fun get_prop :: "json \<Rightarrow> string \<Rightarrow> error + json option" where
  "get_prop JNull k = Inl TypeError"
| "get_prop (JObj members) k = Inr (map_of members k)"
| "get_prop v k = Inr None"

fun truthy :: "json option \<Rightarrow> bool" where
  "truthy None = False"
| "truthy (Some JNull) = False"
| "truthy (Some (JBool b)) = b"
| "truthy (Some (JNum x)) = (x \<noteq> 0)"
| "truthy (Some (JStr s)) = (s \<noteq> [])"
| "truthy (Some (JArr xs)) = True"
| "truthy (Some (JObj ms)) = True"

text \<open>\<open>a || b\<close>\<close>

definition or_else :: "json option \<Rightarrow> json \<Rightarrow> json" where
  "or_else a b = (case a of None \<Rightarrow> b | Some v \<Rightarrow> if truthy a then v else b)"

definition validOperations :: "OperationType list" where
  "validOperations =
     [inpaint_remove, inpaint_replace, inpaint_add, style_transfer, generate_new, camera_adjust]"

text \<open>
  \<open>validOperations.includes(parsed.operation) ? parsed.operation : ...\<close>: the tag
  counts only if it is a string equal to one of the six names.
\<close>

definition valid_operation :: "json option \<Rightarrow> OperationType option" where
  "valid_operation v =
     (case v of
        Some (JStr s) \<Rightarrow> find (\<lambda>valid. operation_name valid = s) validOperations
      | _ \<Rightarrow> None)"

text \<open>Lines 158 to 174: from the parsed body to the result.\<close>

definition validate_parsed :: "json \<Rightarrow> bool \<Rightarrow> error + (json, json, json) AgentResponse" where
  "validate_parsed parsed hasMask =
    (case get_prop parsed ''operation'' of
       Inl e \<Rightarrow> Inl e
     | Inr tag \<Rightarrow>
        (case (get_prop parsed ''needsMask'', get_prop parsed ''params'',
               get_prop parsed ''prompt'', get_prop parsed ''response'') of
           (Inr m, Inr ps, Inr pr, Inr rs) \<Rightarrow>
             Inr \<lparr>operation =
                    (case valid_operation tag of
                       Some valid \<Rightarrow> valid
                     | None \<Rightarrow> if hasMask then inpaint_replace else style_transfer),
                  needsMask = or_else m (JBool False),
                  params = or_else ps parsed,
                  prompt = or_else pr (JStr []),
                  response = or_else rs (JStr default_response)\<rparr>
         | _ \<Rightarrow> Inl TypeError))"

text \<open>
  The exchange with the external service, up to \<open>JSON.parse\<close>: the fetch fails, the
  status is not ok, the answer has no \<open>choices\<close> to index, the content is empty, the
  content does not parse (\<open>Content None\<close>), or it parses. Each failure is a \<open>throw\<close>
  of the source.
\<close>

datatype upstream = Unreachable | NotOk | Malformed | NoContent | Content "json option"

fun callOpenAI :: "upstream \<Rightarrow> bool \<Rightarrow> error + (json, json, json) AgentResponse" where
  "callOpenAI Unreachable hasMask = Inl FetchFailed"
| "callOpenAI NotOk hasMask = Inl ApiError"
| "callOpenAI Malformed hasMask = Inl TypeError"
| "callOpenAI NoContent hasMask = Inl EmptyResponse"
| "callOpenAI (Content None) hasMask = Inl SyntaxError"
| "callOpenAI (Content (Some parsed)) hasMask = validate_parsed parsed hasMask"

subsection \<open>The request handler: \<open>POST\<close>\<close>

record AgentRequest =
  userMessage :: "string option"
  currentParams :: FIBOParams
  hasMask :: bool

datatype body =
    FromMock "(bool, FIBOParams, string) AgentResponse"
  | FromLLM "(json, json, json) AgentResponse"
  | ErrorPayload string

record http_response =
  status :: nat
  payload :: body

text \<open>
  \<open>POST key up request\<close>: \<open>key\<close> is \<open>process.env.AZURE_OPENAI_API_KEY\<close>, \<open>up\<close> is what
  the external service would answer, and \<open>request\<close> is the body read by
  \<open>request.json()\<close> at its declared type \<open>AgentRequest\<close>, with \<open>userMessage\<close>
  possibly missing; it is \<open>None\<close> when reading the body or taking its fields throws
  (the body is no JSON, or is \<open>null\<close>). Whatever is thrown inside the \<open>try\<close> block
  is answered with status 500. A successful answer has status 200.
\<close>

definition POST :: "string option \<Rightarrow> upstream \<Rightarrow> AgentRequest option \<Rightarrow> http_response" where
  "POST openaiKey up request =
    (case request of
       None \<Rightarrow> \<lparr>status = 500, payload = ErrorPayload ''Failed to process instruction''\<rparr>
     | Some req \<Rightarrow>
        (case userMessage req of
           None \<Rightarrow> \<lparr>status = 400, payload = ErrorPayload ''User message is required''\<rparr>
         | Some message \<Rightarrow>
            if message = [] then
              \<lparr>status = 400, payload = ErrorPayload ''User message is required''\<rparr>
            else if openaiKey \<noteq> None \<and> openaiKey \<noteq> Some [] then
              (case callOpenAI up (hasMask req) of
                 Inl e \<Rightarrow>
                   \<lparr>status = 500, payload = ErrorPayload ''Failed to process instruction''\<rparr>
               | Inr r \<Rightarrow> \<lparr>status = 200, payload = FromLLM r\<rparr>)
            else
              \<lparr>status = 200,
               payload = FromMock (mockAgentResponse message (currentParams req)
                                     (hasMask req))\<rparr>))"

text \<open>\<open>DEFAULT_FIBO_PARAMS\<close>, the state of a new session.\<close>

definition DEFAULT_FIBO_PARAMS :: FIBOParams where
  "DEFAULT_FIBO_PARAMS =
     \<lparr>camera = \<lparr>yaw = 0, pitch = 0, roll = 0, fov = 40\<rparr>,
      lighting = ''studio_soft'',
      color_palette = None,
      composition = ''centered'',
      edit_mode = None,
      subject_description = None,
      realism_level = ''high'',
      output_format = ''hdr_16bit''\<rparr>"

section \<open>Properties of the rule-based resolver\<close>

subsection \<open>What \<open>classify\<close> leaves alone\<close>

lemma classify_camera: "camera (fst (snd (classify m l p h))) = camera p"
  unfolding classify_def Let_def by (simp split: option.split list.split)

lemma classify_lighting: "lighting (fst (snd (classify m l p h))) = lighting p"
  unfolding classify_def Let_def by (simp split: option.split list.split)

lemma classify_color_palette: "color_palette (fst (snd (classify m l p h))) = color_palette p"
  unfolding classify_def Let_def by (simp split: option.split list.split)

lemma classify_composition: "composition (fst (snd (classify m l p h))) = composition p"
  unfolding classify_def Let_def by (simp split: option.split list.split)

lemma classify_realism_level: "realism_level (fst (snd (classify m l p h))) = realism_level p"
  unfolding classify_def Let_def by (simp split: option.split list.split)

lemma classify_output_format: "output_format (fst (snd (classify m l p h))) = output_format p"
  unfolding classify_def Let_def by (simp split: option.split list.split)

subsection \<open>The fields of the result, one by one\<close>

lemma mock_operation: "operation (mockAgentResponse m p h) = fst (classify m (toLowerCase m) p h)"
  by (simp add: mockAgentResponse_def Let_def case_prod_beta)

lemma mock_camera:
  "camera (params (mockAgentResponse m p h)) = parse_camera (toLowerCase m) (camera p)"
  using classify_camera [of m "toLowerCase m" p h]
  by (simp add: mockAgentResponse_def Let_def case_prod_beta)

lemma mock_lighting:
  "lighting (params (mockAgentResponse m p h)) = parse_lighting (toLowerCase m) (lighting p)"
  using classify_lighting [of m "toLowerCase m" p h]
  by (simp add: mockAgentResponse_def Let_def case_prod_beta)

lemma mock_color_palette:
  "color_palette (params (mockAgentResponse m p h)) =
     parse_color (toLowerCase m) (color_palette p)"
  using classify_color_palette [of m "toLowerCase m" p h]
  by (simp add: mockAgentResponse_def Let_def case_prod_beta)

lemma mock_composition: "composition (params (mockAgentResponse m p h)) = composition p"
  using classify_composition [of m "toLowerCase m" p h]
  by (simp add: mockAgentResponse_def Let_def case_prod_beta)

lemma mock_realism_level: "realism_level (params (mockAgentResponse m p h)) = realism_level p"
  using classify_realism_level [of m "toLowerCase m" p h]
  by (simp add: mockAgentResponse_def Let_def case_prod_beta)

lemma mock_output_format: "output_format (params (mockAgentResponse m p h)) = output_format p"
  using classify_output_format [of m "toLowerCase m" p h]
  by (simp add: mockAgentResponse_def Let_def case_prod_beta)

lemma parse_camera_pitch: "pitch (parse_camera l c) = pitch c"
  by (simp add: parse_camera_def Let_def)

lemma parse_camera_roll: "roll (parse_camera l c) = roll c"
  by (simp add: parse_camera_def Let_def)

lemma startsWith_inpaint:
  "startsWith (operation_name x) ''inpaint'' =
     (x \<in> {inpaint_remove, inpaint_replace, inpaint_add})"
  by (cases x) (simp_all add: startsWith_def)

subsection \<open>The mask gate\<close>

text \<open>
  Claim C1. For every message, parameter snapshot and mask flag, the result of the
  rule-based resolver has \<open>needsMask\<close> true exactly when its operation is one of
  \<open>inpaint_remove\<close>, \<open>inpaint_replace\<close>, \<open>inpaint_add\<close> and no mask is present.
\<close>

theorem needsMask_iff_inpaint_without_mask:
  "needsMask (mockAgentResponse m p h) =
     (operation (mockAgentResponse m p h) \<in> {inpaint_remove, inpaint_replace, inpaint_add}
      \<and> h = False)"
  by (simp add: mockAgentResponse_def Let_def mask_operations_def case_prod_beta)

subsection \<open>The edit mode\<close>

text \<open>
  Claim C6. The returned \<open>edit_mode\<close> is \<open>mask\<close> if and only if the returned
  operation is one of the three inpaint variants, and it is \<open>full\<close> if and only if
  the operation is one of the other three.
\<close>

theorem edit_mode_matches_operation:
  "(edit_mode (params (mockAgentResponse m p h)) = Some ''mask'') =
     (operation (mockAgentResponse m p h) \<in> {inpaint_remove, inpaint_replace, inpaint_add}) \<and>
   (edit_mode (params (mockAgentResponse m p h)) = Some ''full'') =
     (operation (mockAgentResponse m p h) \<in> {style_transfer, generate_new, camera_adjust})"
proof -
  have "edit_mode (params (mockAgentResponse m p h)) =
     Some (if operation (mockAgentResponse m p h)
                \<in> {inpaint_remove, inpaint_replace, inpaint_add}
           then ''mask'' else ''full'')"
    by (simp add: mockAgentResponse_def Let_def startsWith_inpaint case_prod_beta)
  then show ?thesis
    by (cases "operation (mockAgentResponse m p h)") simp_all
qed

subsection \<open>The frame\<close>

text \<open>
  Claim C9. For every message, snapshot and mask flag the resolver returns
  \<open>camera.pitch\<close>, \<open>camera.roll\<close>, \<open>composition\<close>, \<open>realism_level\<close> and
  \<open>output_format\<close> as they came in; this holds for every message, so also for
  vertical instructions such as "tilt up" or "look down".
\<close>

theorem untouched_fields:
  "pitch (camera (params (mockAgentResponse m p h))) = pitch (camera p) \<and>
   roll (camera (params (mockAgentResponse m p h))) = roll (camera p) \<and>
   composition (params (mockAgentResponse m p h)) = composition p \<and>
   realism_level (params (mockAgentResponse m p h)) = realism_level p \<and>
   output_format (params (mockAgentResponse m p h)) = output_format p"
  by (simp add: mock_camera parse_camera_pitch parse_camera_roll mock_composition
      mock_realism_level mock_output_format)

subsection \<open>The camera clamp\<close>

lemma left_amount_range: "- 45 \<le> left_amount l \<and> left_amount l \<le> 0"
  by (simp add: left_amount_def)

lemma right_amount_range: "0 \<le> right_amount l \<and> right_amount l \<le> 45"
  by (simp add: right_amount_def)

lemma parse_camera_yaw_bounds:
  assumes "- 180 \<le> yaw c" and "yaw c \<le> 180"
  shows "- 180 \<le> yaw (parse_camera l c) \<and> yaw (parse_camera l c) \<le> 180"
  using assms left_amount_range [of l] right_amount_range [of l]
  by (auto simp: parse_camera_def Let_def)

lemma parse_camera_fov_bounds:
  assumes "10 \<le> fov c" and "fov c \<le> 120"
  shows "10 \<le> fov (parse_camera l c) \<and> fov (parse_camera l c) \<le> 120"
  using assms by (auto simp: parse_camera_def Let_def)

lemma lower_rotate_hard_left: "toLowerCase ''rotate hard left'' = ''rotate hard left''"
  by code_simp

lemma rotate_hard_left_yaw:
  "yaw (parse_camera ''rotate hard left'' c) = max (- 180) (yaw c - 45)"
proof -
  have "str_includes ''rotate hard left'' ''left''"
    and "\<not> str_includes ''rotate hard left'' ''tilt''"
    and "\<not> str_includes ''rotate hard left'' ''slight''"
    and "str_includes ''rotate hard left'' ''hard''"
    and "\<not> str_includes ''rotate hard left'' ''right''"
    by (simp_all add: startsWith_def)
  then show ?thesis
    by (simp add: parse_camera_def Let_def left_amount_def)
qed

text \<open>
  Claim C5. If the incoming yaw is in \<open>[-180, 180]\<close> and the incoming fov is in
  \<open>[10, 120]\<close>, then so are the returned yaw and fov, whatever the message adds to
  them; and "rotate hard left" on a yaw of \<open>-170\<close> returns \<open>-180\<close>, not \<open>-215\<close>.
\<close>

theorem camera_stays_in_bounds:
  "(- 180 \<le> yaw (camera p) \<and> yaw (camera p) \<le> 180 \<and>
    10 \<le> fov (camera p) \<and> fov (camera p) \<le> 120 \<longrightarrow>
      - 180 \<le> yaw (camera (params (mockAgentResponse m p h))) \<and>
      yaw (camera (params (mockAgentResponse m p h))) \<le> 180 \<and>
      10 \<le> fov (camera (params (mockAgentResponse m p h))) \<and>
      fov (camera (params (mockAgentResponse m p h))) \<le> 120) \<and>
   (yaw (camera p) = - 170 \<longrightarrow>
      yaw (camera (params (mockAgentResponse ''rotate hard left'' p False))) = - 180)"
proof (intro conjI impI)
  assume b: "- 180 \<le> yaw (camera p) \<and> yaw (camera p) \<le> 180 \<and>
    10 \<le> fov (camera p) \<and> fov (camera p) \<le> 120"
  from b parse_camera_yaw_bounds [of "camera p" "toLowerCase m"]
  show "- 180 \<le> yaw (camera (params (mockAgentResponse m p h)))"
    and "yaw (camera (params (mockAgentResponse m p h))) \<le> 180"
    by (simp_all add: mock_camera)
  from b parse_camera_fov_bounds [of "camera p" "toLowerCase m"]
  show "10 \<le> fov (camera (params (mockAgentResponse m p h)))"
    and "fov (camera (params (mockAgentResponse m p h))) \<le> 120"
    by (simp_all add: mock_camera)
next
  assume "yaw (camera p) = - 170"
  then show "yaw (camera (params (mockAgentResponse ''rotate hard left'' p False))) = - 180"
    by (simp add: mock_camera lower_rotate_hard_left rotate_hard_left_yaw)
qed

theorem camera_stays_in_bounds_witness:
  "yaw (camera (params (mockAgentResponse ''rotate hard left''
      (DEFAULT_FIBO_PARAMS\<lparr>camera := \<lparr>yaw = - 170, pitch = 0, roll = 0, fov = 40\<rparr>\<rparr>) False)))
     = - 180 \<and>
   10 \<le> fov (camera (params (mockAgentResponse ''rotate hard left''
      (DEFAULT_FIBO_PARAMS\<lparr>camera := \<lparr>yaw = - 170, pitch = 0, roll = 0, fov = 40\<rparr>\<rparr>) False)))
   \<and>
   fov (camera (params (mockAgentResponse ''rotate hard left''
      (DEFAULT_FIBO_PARAMS\<lparr>camera := \<lparr>yaw = - 170, pitch = 0, roll = 0, fov = 40\<rparr>\<rparr>) False)))
     \<le> 120"
  using camera_stays_in_bounds
    [of "DEFAULT_FIBO_PARAMS\<lparr>camera := \<lparr>yaw = - 170, pitch = 0, roll = 0, fov = 40\<rparr>\<rparr>"
        "''rotate hard left''" False]
  by (simp add: DEFAULT_FIBO_PARAMS_def)

subsection \<open>Lighting and palette: the last check wins\<close>

lemma parse_lighting_last_wins:
  "parse_lighting l l0 =
     (if str_includes l ''neon'' then ''neon''
      else if str_includes l ''natural'' \<or> str_includes l ''daylight'' then ''natural_daylight''
      else if str_includes l ''soft'' then ''studio_soft''
      else if str_includes l ''dramatic'' then ''dramatic_side''
      else l0)"
  by (simp add: parse_lighting_def Let_def)

lemma parse_color_last_wins:
  "parse_color l c0 =
     (if str_includes l ''vibrant'' then Some ''vibrant''
      else if str_includes l ''cool'' \<or> str_includes l ''cold'' then Some ''cool''
      else if str_includes l ''warm'' then Some ''warm''
      else c0)"
  by (simp add: parse_color_def Let_def)

text \<open>
  Claim C7. The returned lighting is the value of the last check that matches, in the
  order dramatic, soft, natural/daylight, neon, and the incoming lighting when none
  matches: read from the last check backwards, the first keyword found decides. So
  a message with "dramatic" and "soft" and no later keyword gives \<open>studio_soft\<close>, and
  one with "soft" and "neon" gives \<open>neon\<close>. The palette behaves the same way over
  warm, cool/cold, vibrant. The keywords are looked up in the lower-cased message.
\<close>

theorem lighting_and_palette_last_wins:
  "lighting (params (mockAgentResponse m p h)) =
     (if str_includes (toLowerCase m) ''neon'' then ''neon''
      else if str_includes (toLowerCase m) ''natural''
              \<or> str_includes (toLowerCase m) ''daylight'' then ''natural_daylight''
      else if str_includes (toLowerCase m) ''soft'' then ''studio_soft''
      else if str_includes (toLowerCase m) ''dramatic'' then ''dramatic_side''
      else lighting p) \<and>
   color_palette (params (mockAgentResponse m p h)) =
     (if str_includes (toLowerCase m) ''vibrant'' then Some ''vibrant''
      else if str_includes (toLowerCase m) ''cool''
              \<or> str_includes (toLowerCase m) ''cold'' then Some ''cool''
      else if str_includes (toLowerCase m) ''warm'' then Some ''warm''
      else color_palette p) \<and>
   (str_includes (toLowerCase m) ''dramatic'' \<and> str_includes (toLowerCase m) ''soft'' \<and>
    \<not> str_includes (toLowerCase m) ''natural'' \<and> \<not> str_includes (toLowerCase m) ''daylight'' \<and>
    \<not> str_includes (toLowerCase m) ''neon'' \<longrightarrow>
      lighting (params (mockAgentResponse m p h)) = ''studio_soft'') \<and>
   (str_includes (toLowerCase m) ''soft'' \<and> str_includes (toLowerCase m) ''neon'' \<longrightarrow>
      lighting (params (mockAgentResponse m p h)) = ''neon'')"
  by (simp add: mock_lighting mock_color_palette parse_lighting_last_wins
      parse_color_last_wins)

lemma lower_soft_dramatic: "toLowerCase ''Soft dramatic light'' = ''soft dramatic light''"
  by code_simp

lemma lower_soft_neon: "toLowerCase ''neon glow, soft'' = ''neon glow, soft''"
  by code_simp

theorem lighting_and_palette_last_wins_witness:
  "lighting (params (mockAgentResponse ''Soft dramatic light'' DEFAULT_FIBO_PARAMS False))
     = ''studio_soft'' \<and>
   lighting (params (mockAgentResponse ''neon glow, soft'' DEFAULT_FIBO_PARAMS False))
     = ''neon''"
proof -
  have a: "str_includes ''soft dramatic light'' ''dramatic''"
    and b: "str_includes ''soft dramatic light'' ''soft''"
    and c: "\<not> str_includes ''soft dramatic light'' ''natural''"
    and d: "\<not> str_includes ''soft dramatic light'' ''daylight''"
    and e: "\<not> str_includes ''soft dramatic light'' ''neon''"
    by (simp_all add: startsWith_def)
  have f: "str_includes ''neon glow, soft'' ''soft''"
    and g: "str_includes ''neon glow, soft'' ''neon''"
    by (simp_all add: startsWith_def)
  from a b c d e
    lighting_and_palette_last_wins [of "''Soft dramatic light''" DEFAULT_FIBO_PARAMS False]
  have "lighting (params (mockAgentResponse ''Soft dramatic light'' DEFAULT_FIBO_PARAMS False))
          = ''studio_soft''"
    unfolding lower_soft_dramatic by blast
  moreover from f g
    lighting_and_palette_last_wins [of "''neon glow, soft''" DEFAULT_FIBO_PARAMS False]
  have "lighting (params (mockAgentResponse ''neon glow, soft'' DEFAULT_FIBO_PARAMS False))
          = ''neon''"
    unfolding lower_soft_neon by blast
  ultimately show ?thesis by simp
qed

section \<open>Properties of the LLM-backed resolver and of the handler\<close>

subsection \<open>The allow-list on the operation tag\<close>

lemma operation_name_inj: "operation_name a = operation_name b \<Longrightarrow> a = b"
  by (cases a; cases b) simp_all

lemma all_operations_valid: "x \<in> set validOperations"
  by (cases x) (simp_all add: validOperations_def)

lemma valid_operation_Some:
  "valid_operation tag = Some x \<longleftrightarrow> tag = Some (JStr (operation_name x))"
proof
  assume "valid_operation tag = Some x"
  then show "tag = Some (JStr (operation_name x))"
    by (auto simp: valid_operation_def validOperations_def
        split: option.splits json.splits if_splits)
next
  assume "tag = Some (JStr (operation_name x))"
  then show "valid_operation tag = Some x"
    by (cases x) (simp_all add: valid_operation_def validOperations_def)
qed

lemma valid_operation_None:
  "valid_operation tag = None \<longleftrightarrow>
     tag \<notin> (\<lambda>x. Some (JStr (operation_name x))) ` set validOperations"
proof -
  have "valid_operation tag = None \<longleftrightarrow> (\<forall>x. valid_operation tag \<noteq> Some x)"
    by auto
  also have "\<dots> \<longleftrightarrow> (\<forall>x. tag \<noteq> Some (JStr (operation_name x)))"
    by (simp add: valid_operation_Some)
  also have "\<dots> \<longleftrightarrow> tag \<notin> (\<lambda>x. Some (JStr (operation_name x))) ` set validOperations"
    using all_operations_valid by auto
  finally show ?thesis .
qed

lemma get_prop_total: "parsed \<noteq> JNull \<Longrightarrow> \<exists>v. get_prop parsed k = Inr v"
  by (cases parsed) simp_all

lemma validate_parsed_returns:
  assumes "parsed \<noteq> JNull"
  shows "\<exists>r. validate_parsed parsed h = Inr r"
proof -
  from assms obtain a b c d e where
    "get_prop parsed ''operation'' = Inr a" "get_prop parsed ''needsMask'' = Inr b"
    "get_prop parsed ''params'' = Inr c" "get_prop parsed ''prompt'' = Inr d"
    "get_prop parsed ''response'' = Inr e"
    using get_prop_total by metis
  then show ?thesis by (simp add: validate_parsed_def)
qed

lemma validate_parsed_operation:
  assumes "validate_parsed parsed h = Inr r"
  shows "\<exists>tag. get_prop parsed ''operation'' = Inr tag \<and>
          operation r = (case valid_operation tag of Some v \<Rightarrow> v
                         | None \<Rightarrow> if h then inpaint_replace else style_transfer)"
  using assms
  by (auto simp: validate_parsed_def split: sum.splits)

text \<open>
  Claim C2. Whatever the upstream exchange was, an operation that \<open>callOpenAI\<close>
  returns is one of the six tags. For a parsed body other than \<open>null\<close> it does return
  (on \<open>null\<close> reading \<open>parsed.operation\<close> throws): a tag that is one of the six
  names is kept, and a tag that is absent or is anything else is replaced by
  \<open>inpaint_replace\<close> when a mask is present and by \<open>style_transfer\<close> when not.
\<close>

theorem llm_operation_validated:
  "(\<forall>r. callOpenAI up h = Inr r \<longrightarrow> operation r \<in> set validOperations) \<and>
   (parsed \<noteq> JNull \<longrightarrow>
      (\<exists>r tag. callOpenAI (Content (Some parsed)) h = Inr r \<and>
         get_prop parsed ''operation'' = Inr tag \<and>
         (tag = None \<or> tag \<notin> (\<lambda>x. Some (JStr (operation_name x))) ` set validOperations
            \<longrightarrow> operation r = (if h then inpaint_replace else style_transfer)) \<and>
         (\<forall>x. tag = Some (JStr (operation_name x)) \<longrightarrow> operation r = x)))"
proof (intro conjI impI)
  show "\<forall>r. callOpenAI up h = Inr r \<longrightarrow> operation r \<in> set validOperations"
    by (simp add: all_operations_valid)
next
  assume "parsed \<noteq> JNull"
  then obtain r where r: "validate_parsed parsed h = Inr r"
    using validate_parsed_returns by blast
  then obtain tag where tag: "get_prop parsed ''operation'' = Inr tag"
    and op: "operation r = (case valid_operation tag of Some v \<Rightarrow> v
                            | None \<Rightarrow> if h then inpaint_replace else style_transfer)"
    using validate_parsed_operation by blast
  have absent: "tag = None \<or> tag \<notin> (\<lambda>x. Some (JStr (operation_name x))) ` set validOperations
      \<longrightarrow> operation r = (if h then inpaint_replace else style_transfer)"
  proof
    assume "tag = None \<or> tag \<notin> (\<lambda>x. Some (JStr (operation_name x))) ` set validOperations"
    then have "tag \<notin> (\<lambda>x. Some (JStr (operation_name x))) ` set validOperations"
      by auto
    then have "valid_operation tag = None"
      by (simp add: valid_operation_None)
    with op show "operation r = (if h then inpaint_replace else style_transfer)"
      by simp
  qed
  have kept: "\<forall>x. tag = Some (JStr (operation_name x)) \<longrightarrow> operation r = x"
  proof (intro allI impI)
    fix x assume "tag = Some (JStr (operation_name x))"
    then have "valid_operation tag = Some x"
      by (simp add: valid_operation_Some)
    with op show "operation r = x" by simp
  qed
  from r tag absent kept
  show "\<exists>r tag. callOpenAI (Content (Some parsed)) h = Inr r \<and>
         get_prop parsed ''operation'' = Inr tag \<and>
         (tag = None \<or> tag \<notin> (\<lambda>x. Some (JStr (operation_name x))) ` set validOperations
            \<longrightarrow> operation r = (if h then inpaint_replace else style_transfer)) \<and>
         (\<forall>x. tag = Some (JStr (operation_name x)) \<longrightarrow> operation r = x)"
    by auto
qed

theorem llm_operation_validated_witness:
  "(\<exists>r. callOpenAI (Content (Some (JObj [(''operation'', JStr ''paint'')]))) True = Inr r \<and>
        operation r = inpaint_replace) \<and>
   (\<exists>r. callOpenAI (Content (Some (JObj [(''prompt'', JStr ''a hat'')]))) False = Inr r \<and>
        operation r = style_transfer) \<and>
   (\<exists>r. callOpenAI (Content (Some (JObj [(''operation'', JStr ''camera_adjust'')]))) True = Inr r \<and>
        operation r = camera_adjust)"
proof (intro conjI)
  have "JStr ''paint'' \<notin> (\<lambda>x. JStr (operation_name x)) ` set validOperations"
    by (simp add: validOperations_def)
  then have "Some (JStr ''paint'') \<notin> (\<lambda>x. Some (JStr (operation_name x))) ` set validOperations"
    by auto
  with llm_operation_validated [of Unreachable True "JObj [(''operation'', JStr ''paint'')]"]
  show "\<exists>r. callOpenAI (Content (Some (JObj [(''operation'', JStr ''paint'')]))) True = Inr r \<and>
        operation r = inpaint_replace"
    by auto
next
  from llm_operation_validated [of Unreachable False "JObj [(''prompt'', JStr ''a hat'')]"]
  show "\<exists>r. callOpenAI (Content (Some (JObj [(''prompt'', JStr ''a hat'')]))) False = Inr r \<and>
        operation r = style_transfer"
    by auto
next
  from llm_operation_validated [of Unreachable True "JObj [(''operation'', JStr ''camera_adjust'')]"]
  have "\<exists>r. callOpenAI (Content (Some (JObj [(''operation'', JStr ''camera_adjust'')]))) True = Inr r \<and>
        (\<forall>x. ''camera_adjust'' = operation_name x \<longrightarrow> operation r = x)"
    by auto
  then obtain r where
    "callOpenAI (Content (Some (JObj [(''operation'', JStr ''camera_adjust'')]))) True = Inr r"
    and "''camera_adjust'' = operation_name camera_adjust \<longrightarrow> operation r = camera_adjust"
    by blast
  then show "\<exists>r. callOpenAI (Content (Some (JObj [(''operation'', JStr ''camera_adjust'')]))) True = Inr r \<and>
        operation r = camera_adjust"
    by simp
qed

subsection \<open>The empty message\<close>

text \<open>
  Claim C8. A request whose \<open>userMessage\<close> is missing or empty is answered with
  status 400 and the error payload "User message is required", whatever the key and
  whatever the external service would have said: no resolver result is produced. A
  failure of the external service is answered with status 500 and another payload.
\<close>

theorem empty_message_is_client_error:
  "(userMessage req = None \<or> userMessage req = Some [] \<longrightarrow>
      POST key up (Some req) =
        \<lparr>status = 400, payload = ErrorPayload ''User message is required''\<rparr>) \<and>
   (userMessage req = Some (c # cs) \<and> callOpenAI up (hasMask req) = Inl e \<longrightarrow>
      POST (Some (k # ks)) up (Some req) =
        \<lparr>status = 500, payload = ErrorPayload ''Failed to process instruction''\<rparr>)"
  by (auto simp: POST_def)

theorem empty_message_is_client_error_witness:
  "POST (Some ''key'') (Content (Some (JObj [])))
     (Some \<lparr>userMessage = Some [], currentParams = DEFAULT_FIBO_PARAMS, hasMask = False\<rparr>) =
     \<lparr>status = 400, payload = ErrorPayload ''User message is required''\<rparr> \<and>
   POST None Unreachable
     (Some \<lparr>userMessage = None, currentParams = DEFAULT_FIBO_PARAMS, hasMask = True\<rparr>) =
     \<lparr>status = 400, payload = ErrorPayload ''User message is required''\<rparr> \<and>
   POST (Some ''key'') Unreachable
     (Some \<lparr>userMessage = Some ''zoom in'', currentParams = DEFAULT_FIBO_PARAMS,
            hasMask = False\<rparr>) =
     \<lparr>status = 500, payload = ErrorPayload ''Failed to process instruction''\<rparr>"
  using
    empty_message_is_client_error
      [of "\<lparr>userMessage = Some [], currentParams = DEFAULT_FIBO_PARAMS, hasMask = False\<rparr>"
          "Some ''key''" "Content (Some (JObj []))"]
    empty_message_is_client_error
      [of "\<lparr>userMessage = None, currentParams = DEFAULT_FIBO_PARAMS, hasMask = True\<rparr>"
          None Unreachable]
    empty_message_is_client_error
      [of "\<lparr>userMessage = Some ''zoom in'', currentParams = DEFAULT_FIBO_PARAMS,
             hasMask = False\<rparr>"
          "Some ''key''" Unreachable "CHR ''z''" "''oom in''" FetchFailed "CHR ''k''" "''ey''"]
  by simp

section \<open>The engine against the declarative reading\<close>

subsection \<open>Every outcome of the engine is a span, and every span is an outcome\<close>

text \<open>
  The backtracking engine \<open>run\<close> and the declarative \<open>spans\<close> agree on where a match
  can end (\<open>run_sound\<close>, \<open>run_complete\<close>); the order of the outcomes and the captures
  are the engine's own. Hence a test with a pattern succeeds exactly when some
  position of the text has a span (\<open>re_test_iff\<close>).
\<close>

lemma stands_at_boundary: "stands_at q st \<Longrightarrow> (word_before st \<noteq> word_after st) = boundary (fst q) (snd q)"
  by (cases "snd q") (auto simp: stands_at_def word_before_def word_after_def boundary_def)

lemma read_lit_sound:
  "stands_at q st \<Longrightarrow> s' \<in> set (read_lit w st) \<Longrightarrow> \<exists>b'. snd q = w @ b' \<and> stands_at (fst q @ w, b') s'"
proof (induction w arbitrary: q st)
  case Nil
  then show ?case by (cases q) (simp add: stands_at_def)
next
  case (Cons c w)
  from Cons.prems obtain xs where r: "rest st = c # xs"
    and s': "s' \<in> set (read_lit w (st\<lparr>prev := Some c, rest := xs\<rparr>))"
    by (cases "rest st") (auto split: if_splits)
  have "stands_at (fst q @ [c], xs) (st\<lparr>prev := Some c, rest := xs\<rparr>)"
    by (simp add: stands_at_def)
  from Cons.IH [OF this s'] obtain b' where "xs = w @ b'" "stands_at ((fst q @ [c]) @ w, b') s'"
    by auto
  with r Cons.prems(1) show ?case by (auto simp: stands_at_def)
qed

lemma read_lit_complete:
  "stands_at q st \<Longrightarrow> snd q = w @ b' \<Longrightarrow> \<exists>s' \<in> set (read_lit w st). stands_at (fst q @ w, b') s'"
proof (induction w arbitrary: q st)
  case Nil
  then show ?case by (cases q) (simp add: stands_at_def)
next
  case (Cons c w)
  let ?st = "st\<lparr>prev := Some c, rest := w @ b'\<rparr>"
  have a: "stands_at (fst q @ [c], w @ b') ?st" by (simp add: stands_at_def)
  from Cons.IH [OF a] obtain s' where "s' \<in> set (read_lit w ?st)" "stands_at ((fst q @ [c]) @ w, b') s'"
    by auto
  moreover from Cons.prems have "rest st = c # w @ b'" by (simp add: stands_at_def)
  ultimately show ?case by auto
qed

lemma read_class_sound:
  "stands_at q st \<Longrightarrow> s' \<in> set (read_class P st) \<Longrightarrow>
     \<exists>c b'. snd q = c # b' \<and> P c \<and> stands_at (fst q @ [c], b') s'"
  by (auto simp: read_class_def stands_at_def split: list.splits if_splits)

lemma read_class_complete:
  "stands_at q st \<Longrightarrow> snd q = c # b' \<Longrightarrow> P c \<Longrightarrow> \<exists>s' \<in> set (read_class P st). stands_at (fst q @ [c], b') s'"
  by (auto simp: read_class_def stands_at_def)


lemma progress_iff:
  "s \<in> set (progress st outs) \<longleftrightarrow> s \<in> set outs \<and> length (rest s) < length (rest st)"
  by (simp add: progress_def)

lemma repeat_greedy_set:
  "set (repeat_greedy f st) =
     insert st (\<Union>x \<in> set (progress st (f st)). set (repeat_greedy f x))"
  by (subst repeat_greedy.simps) auto

lemma repeat_lazy_set:
  "set (repeat_lazy f st) =
     insert st (\<Union>x \<in> set (progress st (f st)). set (repeat_lazy f x))"
  by (subst repeat_lazy.simps) auto

lemma repeat_greedy_sound:
  assumes f: "\<And>q st s'. stands_at q st \<Longrightarrow> s' \<in> set (f st) \<Longrightarrow> \<exists>q' \<in> S q. stands_at q' s'"
  shows "stands_at q st \<Longrightarrow> s' \<in> set (repeat_greedy f st) \<Longrightarrow>
           \<exists>q'. iterate S q q' \<and> stands_at q' s'"
proof (induction "length (rest st)" arbitrary: st q rule: less_induct)
  case less
  from less.prems(2) consider "s' = st"
    | x where "x \<in> set (progress st (f st))" "s' \<in> set (repeat_greedy f x)"
    by (subst (asm) repeat_greedy_set) auto
  then show ?case
  proof cases
    case 1
    have "iterate S q q" by (rule iterate.stop)
    with 1 less.prems(1) show ?thesis by blast
  next
    case 2
    then have x: "x \<in> set (f st)" and lt: "length (rest x) < length (rest st)"
      by (simp_all add: progress_iff)
    from f [OF less.prems(1) x] obtain q1 where q1: "q1 \<in> S q" "stands_at q1 x"
      by blast
    from less.hyps [OF lt q1(2) 2(2)] obtain q' where q': "iterate S q1 q'" "stands_at q' s'"
      by blast
    from lt q1(2) less.prems(1) have "length (snd q1) < length (snd q)"
      by (simp add: stands_at_def)
    with q1(1) q'(1) have "iterate S q q'" by (blast intro: iterate.more)
    with q'(2) show ?thesis by blast
  qed
qed

lemma repeat_greedy_complete:
  assumes f: "\<And>q st q'. stands_at q st \<Longrightarrow> q' \<in> S q \<Longrightarrow> \<exists>s' \<in> set (f st). stands_at q' s'"
  shows "iterate S q q' \<Longrightarrow> stands_at q st \<Longrightarrow> \<exists>s' \<in> set (repeat_greedy f st). stands_at q' s'"
proof (induction arbitrary: st rule: iterate.induct)
  case (stop q)
  then show ?case by (subst repeat_greedy_set) auto
next
  case (more q1 q q'')
  from f [OF more.prems more.hyps(1)] obtain x where x: "x \<in> set (f st)" "stands_at q1 x"
    by blast
  with more.hyps(2) more.prems have "x \<in> set (progress st (f st))"
    by (simp add: progress_iff stands_at_def)
  moreover from more.IH [OF x(2)] obtain s' where "s' \<in> set (repeat_greedy f x)" "stands_at q'' s'"
    by blast
  ultimately show ?case by (subst repeat_greedy_set) auto
qed

lemma repeat_lazy_sound:
  assumes f: "\<And>q st s'. stands_at q st \<Longrightarrow> s' \<in> set (f st) \<Longrightarrow> \<exists>q' \<in> S q. stands_at q' s'"
  shows "stands_at q st \<Longrightarrow> s' \<in> set (repeat_lazy f st) \<Longrightarrow>
           \<exists>q'. iterate S q q' \<and> stands_at q' s'"
proof (induction "length (rest st)" arbitrary: st q rule: less_induct)
  case less
  from less.prems(2) consider "s' = st"
    | x where "x \<in> set (progress st (f st))" "s' \<in> set (repeat_lazy f x)"
    by (subst (asm) repeat_lazy_set) auto
  then show ?case
  proof cases
    case 1
    have "iterate S q q" by (rule iterate.stop)
    with 1 less.prems(1) show ?thesis by blast
  next
    case 2
    then have x: "x \<in> set (f st)" and lt: "length (rest x) < length (rest st)"
      by (simp_all add: progress_iff)
    from f [OF less.prems(1) x] obtain q1 where q1: "q1 \<in> S q" "stands_at q1 x"
      by blast
    from less.hyps [OF lt q1(2) 2(2)] obtain q' where q': "iterate S q1 q'" "stands_at q' s'"
      by blast
    from lt q1(2) less.prems(1) have "length (snd q1) < length (snd q)"
      by (simp add: stands_at_def)
    with q1(1) q'(1) have "iterate S q q'" by (blast intro: iterate.more)
    with q'(2) show ?thesis by blast
  qed
qed

lemma repeat_lazy_complete:
  assumes f: "\<And>q st q'. stands_at q st \<Longrightarrow> q' \<in> S q \<Longrightarrow> \<exists>s' \<in> set (f st). stands_at q' s'"
  shows "iterate S q q' \<Longrightarrow> stands_at q st \<Longrightarrow> \<exists>s' \<in> set (repeat_lazy f st). stands_at q' s'"
proof (induction arbitrary: st rule: iterate.induct)
  case (stop q)
  then show ?case by (subst repeat_lazy_set) auto
next
  case (more q1 q q'')
  from f [OF more.prems more.hyps(1)] obtain x where x: "x \<in> set (f st)" "stands_at q1 x"
    by blast
  with more.hyps(2) more.prems have "x \<in> set (progress st (f st))"
    by (simp add: progress_iff stands_at_def)
  moreover from more.IH [OF x(2)] obtain s' where "s' \<in> set (repeat_lazy f x)" "stands_at q'' s'"
    by blast
  ultimately show ?case by (subst repeat_lazy_set) auto
qed

lemma stands_at_caps: "stands_at q (s\<lparr>caps := c\<rparr>) = stands_at q s"
  by (simp add: stands_at_def)

lemma run_sound:
  "stands_at q st \<Longrightarrow> s' \<in> set (run r st) \<Longrightarrow> \<exists>q' \<in> spans r q. stands_at q' s'"
proof (induction r arbitrary: q st s')
  case (Lit w)
  then show ?case using read_lit_sound [of q st s' w] by auto
next
  case Dot
  from read_class_sound [OF Dot.prems(1)] Dot.prems(2)
  obtain c b' where "snd q = c # b'" "\<not> is_line_terminator c" "stands_at (fst q @ [c], b') s'"
    by fastforce
  moreover from this have "(fst q @ [c], b') \<in> spans Dot q" by simp
  ultimately show ?case by blast
next
  case Space
  from read_class_sound [OF Space.prems(1)] Space.prems(2)
  obtain c b' where "snd q = c # b'" "is_space c" "stands_at (fst q @ [c], b') s'"
    by fastforce
  moreover from this have "(fst q @ [c], b') \<in> spans Space q" by simp
  ultimately show ?case by blast
next
  case WordB
  from WordB.prems(2) have "s' = st" "word_before st \<noteq> word_after st"
    by (simp_all split: if_splits)
  with stands_at_boundary [OF WordB.prems(1)] WordB.prems(1)
  have "q \<in> spans WordB q" "stands_at q s'" by simp_all
  then show ?case by blast
next
  case EndOfInput
  from EndOfInput.prems(2) have "s' = st" "rest st = []"
    by (simp_all split: if_splits)
  with EndOfInput.prems(1) have "q \<in> spans EndOfInput q" "stands_at q s'"
    by (simp_all add: stands_at_def)
  then show ?case by blast
next
  case (Seq r1 r2)
  from Seq.prems(2) obtain s1 where s1: "s1 \<in> set (run r1 st)" "s' \<in> set (run r2 s1)"
    by auto
  from Seq.IH(1) [OF Seq.prems(1) s1(1)] obtain q1 where q1: "q1 \<in> spans r1 q" "stands_at q1 s1"
    by blast
  from Seq.IH(2) [OF q1(2) s1(2)] obtain q' where "q' \<in> spans r2 q1" "stands_at q' s'"
    by blast
  with q1(1) show ?case by auto
next
  case (Alt r1 r2)
  from Alt.prems(2) consider "s' \<in> set (run r1 st)" | "s' \<in> set (run r2 st)"
    by auto
  then show ?case
  proof cases
    case 1
    from Alt.IH(1) [OF Alt.prems(1) 1] obtain q' where "q' \<in> spans r1 q" "stands_at q' s'"
      by blast
    then have "q' \<in> spans (Alt r1 r2) q" "stands_at q' s'" by simp_all
    then show ?thesis by blast
  next
    case 2
    from Alt.IH(2) [OF Alt.prems(1) 2] obtain q' where "q' \<in> spans r2 q" "stands_at q' s'"
      by blast
    then have "q' \<in> spans (Alt r1 r2) q" "stands_at q' s'" by simp_all
    then show ?thesis by blast
  qed
next
  case (Opt r)
  from Opt.prems(2) consider "s' = st" | "s' \<in> set (run r st)" "length (rest s') < length (rest st)"
    by (auto simp: progress_iff)
  then show ?case
  proof cases
    case 1
    have "q \<in> spans (Opt r) q" by simp
    with 1 Opt.prems(1) show ?thesis by blast
  next
    case 2
    from Opt.IH [OF Opt.prems(1) 2(1)] obtain q' where q': "q' \<in> spans r q" "stands_at q' s'"
      by blast
    with 2(2) Opt.prems(1) have "length (snd q') < length (snd q)"
      by (simp add: stands_at_def)
    with q'(1) have "q' \<in> spans (Opt r) q" by simp
    with q'(2) show ?thesis by blast
  qed
next
  case (Star r)
  from Star.prems(2) have "s' \<in> set (repeat_greedy (run r) st)" by simp
  from repeat_greedy_sound [of "run r" "spans r", OF Star.IH Star.prems(1) this]
  show ?case by auto
next
  case (StarLazy r)
  from StarLazy.prems(2) have "s' \<in> set (repeat_lazy (run r) st)" by simp
  from repeat_lazy_sound [of "run r" "spans r", OF StarLazy.IH StarLazy.prems(1) this]
  show ?case by auto
next
  case (Group r)
  from Group.prems(2) obtain s where s: "s \<in> set (run r st)"
    and s': "s' = s\<lparr>caps := caps s @ [take (length (rest st) - length (rest s)) (rest st)]\<rparr>"
    by auto
  from Group.IH [OF Group.prems(1) s] obtain q' where "q' \<in> spans r q" "stands_at q' s"
    by blast
  with s' show ?case by (auto simp: stands_at_caps)
qed

lemma run_complete:
  "stands_at q st \<Longrightarrow> q' \<in> spans r q \<Longrightarrow> \<exists>s' \<in> set (run r st). stands_at q' s'"
proof (induction r arbitrary: q st q')
  case (Lit w)
  then show ?case using read_lit_complete [of q st w] by auto
next
  case Dot
  from Dot.prems(2) obtain c b' where "snd q = c # b'" "\<not> is_line_terminator c"
    "q' = (fst q @ [c], b')"
    by auto
  with read_class_complete [OF Dot.prems(1), of c b' "\<lambda>c. \<not> is_line_terminator c"]
  show ?case by simp
next
  case Space
  from Space.prems(2) obtain c b' where "snd q = c # b'" "is_space c"
    "q' = (fst q @ [c], b')"
    by auto
  with read_class_complete [OF Space.prems(1), of c b' is_space]
  show ?case by simp
next
  case WordB
  from WordB.prems(2) have "q' = q" "boundary (fst q) (snd q)"
    by (simp_all split: if_splits)
  with stands_at_boundary [OF WordB.prems(1)] WordB.prems(1)
  show ?case by simp
next
  case EndOfInput
  from EndOfInput.prems(2) have "q' = q" "snd q = []"
    by (simp_all split: if_splits)
  with EndOfInput.prems(1) show ?case by (simp add: stands_at_def)
next
  case (Seq r1 r2)
  from Seq.prems(2) obtain q1 where q1: "q1 \<in> spans r1 q" "q' \<in> spans r2 q1"
    by auto
  from Seq.IH(1) [OF Seq.prems(1) q1(1)] obtain s1 where s1: "s1 \<in> set (run r1 st)" "stands_at q1 s1"
    by blast
  from Seq.IH(2) [OF s1(2) q1(2)] obtain s' where "s' \<in> set (run r2 s1)" "stands_at q' s'"
    by blast
  with s1(1) show ?case by auto
next
  case (Alt r1 r2)
  from Alt.prems(2) consider "q' \<in> spans r1 q" | "q' \<in> spans r2 q"
    by auto
  then show ?case
  proof cases
    case 1
    from Alt.IH(1) [OF Alt.prems(1) 1] show ?thesis by auto
  next
    case 2
    from Alt.IH(2) [OF Alt.prems(1) 2] show ?thesis by auto
  qed
next
  case (Opt r)
  from Opt.prems(2) consider "q' = q" | "q' \<in> spans r q" "length (snd q') < length (snd q)"
    by auto
  then show ?case
  proof cases
    case 1
    with Opt.prems(1) show ?thesis by auto
  next
    case 2
    from Opt.IH [OF Opt.prems(1) 2(1)] obtain s' where s': "s' \<in> set (run r st)" "stands_at q' s'"
      by blast
    with 2(2) Opt.prems(1) have "length (rest s') < length (rest st)"
      by (simp add: stands_at_def)
    with s' show ?thesis by (auto simp: progress_iff)
  qed
next
  case (Star r)
  from Star.prems(2) have "iterate (spans r) q q'" by simp
  from repeat_greedy_complete [of "spans r" "run r", OF Star.IH this Star.prems(1)]
  show ?case by simp
next
  case (StarLazy r)
  from StarLazy.prems(2) have "iterate (spans r) q q'" by simp
  from repeat_lazy_complete [of "spans r" "run r", OF StarLazy.IH this StarLazy.prems(1)]
  show ?case by simp
next
  case (Group r)
  from Group.prems(2) have "q' \<in> spans r q" by simp
  from Group.IH [OF Group.prems(1) this] obtain s where "s \<in> set (run r st)" "stands_at q' s"
    by blast
  then show ?case by (auto simp: stands_at_caps)
qed

subsection \<open>Testing a pattern\<close>

lemma run_nonempty_iff:
  assumes "stands_at q st"
  shows "run r st \<noteq> [] \<longleftrightarrow> spans r q \<noteq> {}"
proof
  assume "run r st \<noteq> []"
  then obtain s' where "s' \<in> set (run r st)" by (cases "run r st") auto
  with run_sound [OF assms] show "spans r q \<noteq> {}" by blast
next
  assume "spans r q \<noteq> {}"
  then obtain q' where "q' \<in> spans r q" by blast
  with run_complete [OF assms] show "run r st \<noteq> []" by fastforce
qed

lemma exec_at_iff:
  "exec_at r (if a0 = [] then None else Some (last a0)) s \<noteq> None \<longleftrightarrow>
     (\<exists>a b. s = a @ b \<and> spans r (a0 @ a, b) \<noteq> {})"
proof (induction s arbitrary: a0)
  case Nil
  have "stands_at (a0, []) \<lparr>prev = (if a0 = [] then None else Some (last a0)), rest = [], caps = []\<rparr>"
    by (simp add: stands_at_def)
  from run_nonempty_iff [OF this, of r] show ?case
    by (auto split: list.splits)
next
  case (Cons c cs)
  let ?st = "\<lparr>prev = (if a0 = [] then None else Some (last a0)), rest = c # cs, caps = []\<rparr>"
  have "stands_at (a0, c # cs) ?st"
    by (simp add: stands_at_def)
  from run_nonempty_iff [OF this, of r]
  have here: "run r ?st \<noteq> [] \<longleftrightarrow> spans r (a0, c # cs) \<noteq> {}" .
  have later: "exec_at r (Some c) cs \<noteq> None \<longleftrightarrow>
      (\<exists>a b. cs = a @ b \<and> spans r (a0 @ c # a, b) \<noteq> {})"
    using Cons.IH [of "a0 @ [c]"] by simp
  have "exec_at r (if a0 = [] then None else Some (last a0)) (c # cs) \<noteq> None \<longleftrightarrow>
      run r ?st \<noteq> [] \<or> exec_at r (Some c) cs \<noteq> None"
    by (cases "run r ?st") simp_all
  also have "\<dots> \<longleftrightarrow> spans r (a0, c # cs) \<noteq> {} \<or>
      (\<exists>a b. cs = a @ b \<and> spans r (a0 @ c # a, b) \<noteq> {})"
    using here later by simp
  also have "\<dots> \<longleftrightarrow> (\<exists>a b. c # cs = a @ b \<and> spans r (a0 @ a, b) \<noteq> {})"
  proof
    assume "spans r (a0, c # cs) \<noteq> {} \<or> (\<exists>a b. cs = a @ b \<and> spans r (a0 @ c # a, b) \<noteq> {})"
    then show "\<exists>a b. c # cs = a @ b \<and> spans r (a0 @ a, b) \<noteq> {}"
    proof
      assume "spans r (a0, c # cs) \<noteq> {}"
      then have "c # cs = [] @ (c # cs) \<and> spans r (a0 @ [], c # cs) \<noteq> {}" by simp
      then show ?thesis by blast
    next
      assume "\<exists>a b. cs = a @ b \<and> spans r (a0 @ c # a, b) \<noteq> {}"
      then obtain a b where "cs = a @ b" "spans r (a0 @ c # a, b) \<noteq> {}" by blast
      then have "c # cs = (c # a) @ b \<and> spans r (a0 @ (c # a), b) \<noteq> {}" by simp
      then show ?thesis by blast
    qed
  next
    assume "\<exists>a b. c # cs = a @ b \<and> spans r (a0 @ a, b) \<noteq> {}"
    then obtain a b where ab: "c # cs = a @ b" "spans r (a0 @ a, b) \<noteq> {}" by blast
    show "spans r (a0, c # cs) \<noteq> {} \<or> (\<exists>a b. cs = a @ b \<and> spans r (a0 @ c # a, b) \<noteq> {})"
    proof (cases a)
      case Nil
      with ab show ?thesis by simp
    next
      case (Cons x a')
      with ab have "cs = a' @ b" "spans r (a0 @ c # a', b) \<noteq> {}" by simp_all
      then show ?thesis by blast
    qed
  qed
  finally show ?case .
qed

lemma re_test_iff: "re_test r l \<longleftrightarrow> (\<exists>a b. l = a @ b \<and> spans r (a, b) \<noteq> {})"
  using exec_at_iff [of r "[]" l] by (simp add: re_test_def re_match_def)

lemma spans_words:
  "ws \<noteq> [] \<Longrightarrow> spans (words ws) q = {(fst q @ w, b') | w b'. w \<in> set ws \<and> snd q = w @ b'}"
proof (induction ws rule: induct_list012)
  case 1
  then show ?case by simp
next
  case (2 w)
  then show ?case by (auto simp: words_def)
next
  case (3 w w' ws)
  then have "spans (words (w' # ws)) q =
      {(fst q @ v, b') | v b'. v \<in> set (w' # ws) \<and> snd q = v @ b'}"
    by simp
  then show ?case by (auto simp: words_def)
qed

lemma iterate_dot_sound:
  "iterate (spans Dot) q q' \<Longrightarrow>
     \<exists>u. fst q' = fst q @ u \<and> snd q = u @ snd q' \<and> (\<forall>x \<in> set u. \<not> is_line_terminator x)"
proof (induction rule: iterate.induct)
  case (stop q)
  then show ?case by simp
next
  case (more q1 q q'')
  from more.hyps(1) obtain c where c: "fst q1 = fst q @ [c]" "snd q = c # snd q1"
    "\<not> is_line_terminator c"
    by auto
  from more.IH obtain u where "fst q'' = fst q1 @ u" "snd q1 = u @ snd q''"
    "\<forall>x \<in> set u. \<not> is_line_terminator x"
    by blast
  with c have "fst q'' = fst q @ (c # u) \<and> snd q = (c # u) @ snd q'' \<and>
      (\<forall>x \<in> set (c # u). \<not> is_line_terminator x)"
    by simp
  then show ?case by blast
qed

lemma iterate_dot_complete:
  "\<forall>x \<in> set u. \<not> is_line_terminator x \<Longrightarrow> iterate (spans Dot) (a, u @ b) (a @ u, b)"
proof (induction u arbitrary: a)
  case Nil
  then show ?case by (simp add: iterate.stop)
next
  case (Cons c u)
  have "(a @ [c], u @ b) \<in> spans Dot (a, (c # u) @ b)"
    using Cons.prems by simp
  moreover have "length (snd (a @ [c], u @ b)) < length (snd (a, (c # u) @ b))"
    by simp
  moreover have "iterate (spans Dot) (a @ [c], u @ b) ((a @ [c]) @ u, b)"
    using Cons.prems by (intro Cons.IH) simp
  ultimately have "iterate (spans Dot) (a, (c # u) @ b) ((a @ [c]) @ u, b)"
    by (rule iterate.more)
  then show ?case by simp
qed

lemma spans_star_dot:
  "spans (Star Dot) (a, l) =
     {(a @ u, b) | u b. l = u @ b \<and> (\<forall>x \<in> set u. \<not> is_line_terminator x)}"
proof (intro set_eqI iffI)
  fix q' assume "q' \<in> spans (Star Dot) (a, l)"
  then have "iterate (spans Dot) (a, l) q'" by simp
  from iterate_dot_sound [OF this] obtain u where
    "fst q' = a @ u" "l = u @ snd q'" "\<forall>x \<in> set u. \<not> is_line_terminator x"
    by auto
  then have "q' = (a @ u, snd q') \<and> l = u @ snd q' \<and> (\<forall>x \<in> set u. \<not> is_line_terminator x)"
    by (cases q') simp
  then show "q' \<in> {(a @ u, b) | u b. l = u @ b \<and> (\<forall>x \<in> set u. \<not> is_line_terminator x)}"
    by blast
next
  fix q' assume "q' \<in> {(a @ u, b) | u b. l = u @ b \<and> (\<forall>x \<in> set u. \<not> is_line_terminator x)}"
  then obtain u b where "q' = (a @ u, b)" "l = u @ b" "\<forall>x \<in> set u. \<not> is_line_terminator x"
    by blast
  with iterate_dot_complete [of u a b] show "q' \<in> spans (Star Dot) (a, l)"
    by simp
qed

lemma spans_Seq_mem: "p \<in> spans (Seq r1 r2) q \<longleftrightarrow> (\<exists>q'. q' \<in> spans r1 q \<and> p \<in> spans r2 q')"
  by auto

lemma spans_WordB_mem: "q' \<in> spans WordB q \<longleftrightarrow> q' = q \<and> boundary (fst q) (snd q)"
  by auto

lemma spans_words_mem:
  "ws \<noteq> [] \<Longrightarrow>
     q' \<in> spans (Group (words ws)) (a, b) \<longleftrightarrow> (\<exists>w b'. w \<in> set ws \<and> b = w @ b' \<and> q' = (a @ w, b'))"
  by (auto simp: spans_words)

lemma spans_star_dot_mem:
  "q' \<in> spans (Star Dot) (a, l) \<longleftrightarrow>
     (\<exists>u b. l = u @ b \<and> (\<forall>x \<in> set u. \<not> is_line_terminator x) \<and> q' = (a @ u, b))"
  unfolding spans_star_dot by blast

lemma spans_cat_append:
  "xs \<noteq> [] \<Longrightarrow> ys \<noteq> [] \<Longrightarrow>
     p \<in> spans (cat (xs @ ys)) q \<longleftrightarrow> (\<exists>q'. q' \<in> spans (cat xs) q \<and> p \<in> spans (cat ys) q')"
proof (induction xs arbitrary: q rule: induct_list012)
  case 1
  then show ?case by simp
next
  case (2 x)
  then obtain y ys' where "ys = y # ys'" by (cases ys) auto
  then show ?case by (simp only: append_Cons append_Nil cat.simps spans_Seq_mem)
next
  case (3 x x' xs)
  have "p \<in> spans (cat ((x # x' # xs) @ ys)) q \<longleftrightarrow>
      (\<exists>q1. q1 \<in> spans x q \<and> p \<in> spans (cat ((x' # xs) @ ys)) q1)"
    by (simp only: append_Cons cat.simps spans_Seq_mem)
  also have "\<dots> \<longleftrightarrow> (\<exists>q1. q1 \<in> spans x q \<and>
      (\<exists>q'. q' \<in> spans (cat (x' # xs)) q1 \<and> p \<in> spans (cat ys) q'))"
    using 3 by simp
  also have "\<dots> \<longleftrightarrow> (\<exists>q'. q' \<in> spans (cat (x # x' # xs)) q \<and> p \<in> spans (cat ys) q')"
    by (simp only: cat.simps spans_Seq_mem) blast
  finally show ?case .
qed

lemma replace_pattern_split:
  "replace_pattern =
     cat ([WordB, Group (words replace_verbs), WordB] @ [Star Dot]
            @ [WordB, Group (words connectors), WordB])"
  by (simp add: replace_pattern_def)

lemma spans_replace_pattern:
  "p \<in> spans replace_pattern q \<longleftrightarrow>
     (\<exists>q1 q2. q1 \<in> spans (cat [WordB, Group (words replace_verbs), WordB]) q \<and>
        q2 \<in> spans (Star Dot) q1 \<and>
        p \<in> spans (cat [WordB, Group (words connectors), WordB]) q2)"
proof -
  have "p \<in> spans replace_pattern q \<longleftrightarrow>
      (\<exists>q1. q1 \<in> spans (cat [WordB, Group (words replace_verbs), WordB]) q \<and>
         p \<in> spans (cat ([Star Dot] @ [WordB, Group (words connectors), WordB])) q1)"
    unfolding replace_pattern_split by (rule spans_cat_append) simp_all
  also have "\<dots> \<longleftrightarrow> (\<exists>q1 q2. q1 \<in> spans (cat [WordB, Group (words replace_verbs), WordB]) q \<and>
        q2 \<in> spans (cat [Star Dot]) q1 \<and>
        p \<in> spans (cat [WordB, Group (words connectors), WordB]) q2)"
    by (subst spans_cat_append) simp_all
  finally show ?thesis by (simp only: cat.simps)
qed

lemma spans_keyword:
  assumes "ws \<noteq> []"
  shows "q' \<in> spans (cat [WordB, Group (words ws), WordB]) (a, b) \<longleftrightarrow>
     (\<exists>v b'. b = v @ b' \<and> v \<in> set ws \<and> boundary a (v @ b') \<and> boundary (a @ v) b' \<and>
        q' = (a @ v, b'))"
proof
  assume "q' \<in> spans (cat [WordB, Group (words ws), WordB]) (a, b)"
  then obtain q1 q2 where q1: "q1 \<in> spans WordB (a, b)"
    and q2: "q2 \<in> spans (Group (words ws)) q1" and q3: "q' \<in> spans WordB q2"
    by (auto simp only: cat.simps spans_Seq_mem)
  from q1 have 1: "q1 = (a, b)" "boundary a b"
    unfolding spans_WordB_mem by simp_all
  from q2 [unfolded 1(1)] obtain w b' where 2: "w \<in> set ws" "b = w @ b'" "q2 = (a @ w, b')"
    unfolding spans_words_mem [OF assms] by blast
  from q3 [unfolded 2(3)] have "q' = (a @ w, b')" "boundary (a @ w) b'"
    unfolding spans_WordB_mem by simp_all
  with 1 2 show "\<exists>v b'. b = v @ b' \<and> v \<in> set ws \<and> boundary a (v @ b') \<and> boundary (a @ v) b' \<and>
        q' = (a @ v, b')"
    by blast
next
  assume "\<exists>v b'. b = v @ b' \<and> v \<in> set ws \<and> boundary a (v @ b') \<and> boundary (a @ v) b' \<and>
        q' = (a @ v, b')"
  then obtain v b' where h: "b = v @ b'" "v \<in> set ws" "boundary a (v @ b')"
    "boundary (a @ v) b'" "q' = (a @ v, b')"
    by blast
  have "(a, b) \<in> spans WordB (a, b)"
    using h unfolding spans_WordB_mem by simp
  moreover have "(a @ v, b') \<in> spans (Group (words ws)) (a, b)"
    using h unfolding spans_words_mem [OF assms] by blast
  moreover have "q' \<in> spans WordB (a @ v, b')"
    using h unfolding spans_WordB_mem by simp
  ultimately show "q' \<in> spans (cat [WordB, Group (words ws), WordB]) (a, b)"
    by (simp only: cat.simps spans_Seq_mem) blast
qed

lemma keyword_pattern_iff:
  assumes "ws \<noteq> []"
  shows "re_test (cat [WordB, Group (words ws), WordB]) l \<longleftrightarrow> whole_word ws l"
proof
  assume "re_test (cat [WordB, Group (words ws), WordB]) l"
  then obtain a b q' where "l = a @ b" "q' \<in> spans (cat [WordB, Group (words ws), WordB]) (a, b)"
    unfolding re_test_iff by blast
  then show "whole_word ws l"
    unfolding whole_word_def spans_keyword [OF assms] by blast
next
  assume "whole_word ws l"
  then obtain a v b where h: "l = a @ v @ b" "v \<in> set ws" "boundary a (v @ b)" "boundary (a @ v) b"
    unfolding whole_word_def by blast
  then have "(a @ v, b) \<in> spans (cat [WordB, Group (words ws), WordB]) (a, v @ b)"
    unfolding spans_keyword [OF assms] by blast
  with h(1) show "re_test (cat [WordB, Group (words ws), WordB]) l"
    unfolding re_test_iff by blast
qed

lemma replace_pattern_meaning: "re_test replace_pattern l \<longleftrightarrow> verb_then_connector l"
proof
  have v: "replace_verbs \<noteq> []" and c: "connectors \<noteq> []"
    by (simp_all add: replace_verbs_def connectors_def)
  assume "re_test replace_pattern l"
  then obtain a l' q' where l: "l = a @ l'" and "q' \<in> spans replace_pattern (a, l')"
    unfolding re_test_iff by blast
  then obtain q1 q2 q3 where q1: "q1 \<in> spans (cat [WordB, Group (words replace_verbs), WordB]) (a, l')"
    and q2: "q2 \<in> spans (Star Dot) q1"
    and q3: "q3 \<in> spans (cat [WordB, Group (words connectors), WordB]) q2"
    unfolding spans_replace_pattern by blast
  from q1 obtain vb b1 where 1: "l' = vb @ b1" "vb \<in> set replace_verbs" "boundary a (vb @ b1)"
    "boundary (a @ vb) b1" "q1 = (a @ vb, b1)"
    unfolding spans_keyword [OF v] by blast
  from q2 [unfolded 1(5)] obtain u b2 where 2: "b1 = u @ b2" "\<forall>x \<in> set u. \<not> is_line_terminator x"
    "q2 = ((a @ vb) @ u, b2)"
    unfolding spans_star_dot_mem by blast
  from q3 [unfolded 2(3)] obtain cn d where 3: "b2 = cn @ d" "cn \<in> set connectors"
    "boundary ((a @ vb) @ u) (cn @ d)" "boundary (((a @ vb) @ u) @ cn) d"
    unfolding spans_keyword [OF c] by blast
  from l 1 2 3 have "l = a @ vb @ u @ cn @ d \<and> vb \<in> set replace_verbs \<and> cn \<in> set connectors \<and>
        boundary a (vb @ u @ cn @ d) \<and> boundary (a @ vb) (u @ cn @ d) \<and>
        (\<forall>x \<in> set u. \<not> is_line_terminator x) \<and>
        boundary (a @ vb @ u) (cn @ d) \<and> boundary (a @ vb @ u @ cn) d"
    by simp
  then show "verb_then_connector l"
    unfolding verb_then_connector_def by blast
next
  have v: "replace_verbs \<noteq> []" and c: "connectors \<noteq> []"
    by (simp_all add: replace_verbs_def connectors_def)
  assume "verb_then_connector l"
  then obtain a vb u cn d where h: "l = a @ vb @ u @ cn @ d" "vb \<in> set replace_verbs"
    "cn \<in> set connectors" "boundary a (vb @ u @ cn @ d)" "boundary (a @ vb) (u @ cn @ d)"
    "\<forall>x \<in> set u. \<not> is_line_terminator x" "boundary (a @ vb @ u) (cn @ d)"
    "boundary (a @ vb @ u @ cn) d"
    unfolding verb_then_connector_def by blast
  have "(a @ vb, u @ cn @ d) \<in> spans (cat [WordB, Group (words replace_verbs), WordB])
          (a, vb @ u @ cn @ d)"
    unfolding spans_keyword [OF v] using h by blast
  moreover have "((a @ vb) @ u, cn @ d) \<in> spans (Star Dot) (a @ vb, u @ cn @ d)"
    unfolding spans_star_dot_mem using h by blast
  moreover have "(((a @ vb) @ u) @ cn, d) \<in> spans (cat [WordB, Group (words connectors), WordB])
          ((a @ vb) @ u, cn @ d)"
    unfolding spans_keyword [OF c] using h by simp
  ultimately have "(((a @ vb) @ u) @ cn, d) \<in> spans replace_pattern (a, vb @ u @ cn @ d)"
    unfolding spans_replace_pattern by blast
  with h(1) show "re_test replace_pattern l"
    unfolding re_test_iff by blast
qed

lemma removal_pattern_meaning: "re_test removal_pattern l \<longleftrightarrow> whole_word removal_verbs l"
  unfolding removal_pattern_def
  by (rule keyword_pattern_iff) (simp add: removal_verbs_def)

lemma add_pattern_meaning: "re_test add_pattern l \<longleftrightarrow> whole_word add_verbs l"
  unfolding add_pattern_def
  by (rule keyword_pattern_iff) (simp add: add_verbs_def)

section \<open>Properties of the classification\<close>

subsection \<open>The branches of \<open>classify\<close>\<close>

lemma mock_prompt:
  "prompt (mockAgentResponse m p h) = fst (snd (snd (classify m (toLowerCase m) p h)))"
  by (simp add: mockAgentResponse_def Let_def case_prod_beta)

lemma mock_needsMask:
  "needsMask (mockAgentResponse m p h) =
     (fst (classify m (toLowerCase m) p h) \<in> set mask_operations \<and> \<not> h)"
  by (simp add: mockAgentResponse_def Let_def case_prod_beta)

lemma mock_response_ungated:
  "fst (classify m (toLowerCase m) p h) \<notin> set mask_operations \<or> h \<Longrightarrow>
   response (mockAgentResponse m p h) = snd (snd (snd (classify m (toLowerCase m) p h)))"
  by (auto simp add: mockAgentResponse_def Let_def case_prod_beta)

lemma mock_subject_description:
  "subject_description (params (mockAgentResponse m p h)) =
     subject_description (fst (snd (classify m (toLowerCase m) p h)))"
  by (simp add: mockAgentResponse_def Let_def case_prod_beta)

lemma classify_remove:
  "re_test removal_pattern l \<Longrightarrow> fst (classify m l p h) = inpaint_remove"
  by (simp add: classify_def Let_def)

lemma classify_replace:
  "\<not> re_test removal_pattern l \<Longrightarrow> re_test replace_pattern l \<Longrightarrow>
     fst (classify m l p h) = inpaint_replace"
  by (simp add: classify_def split: option.split list.split)

lemma classify_add:
  assumes "\<not> re_test removal_pattern l" and "\<not> re_test replace_pattern l"
    and "re_test add_pattern l"
  shows "classify m l p h =
     (let sd = (case re_match add_capture l of Some (g1 # _) \<Rightarrow> trim g1 | _ \<Rightarrow> m)
      in (if h then inpaint_add else style_transfer,
          p\<lparr>subject_description := Some sd\<rparr>,
          ''Add '' @ sd @ '' in the marked area, blend seamlessly'',
          sparkles @ '' I'll add '' @ dquote @ sd @ dquote
            @ '' to the marked area. Click Generate!''))"
  using assms by (simp add: classify_def)

lemma classify_add_operation:
  assumes "\<not> re_test removal_pattern l" and "\<not> re_test replace_pattern l"
    and "re_test add_pattern l"
  shows "fst (classify m l p h) = (if h then inpaint_add else style_transfer)"
  using assms by (simp add: classify_def Let_def)

subsection \<open>Messages used as examples\<close>

lemma add_flowers_lower: "toLowerCase ''add flowers here'' = ''add flowers here''"
  by code_simp

lemma add_flowers_no_removal: "\<not> re_test removal_pattern ''add flowers here''"
  by code_simp

lemma add_flowers_no_replace: "\<not> re_test replace_pattern ''add flowers here''"
  by code_simp

lemma add_flowers_add: "re_test add_pattern ''add flowers here''"
  by code_simp

lemma add_flowers_capture: "re_match add_capture ''add flowers here'' = Some [''flowers'']"
  by code_simp

lemma put_hat_lower: "toLowerCase ''Put a Hat on the dog'' = ''put a hat on the dog''"
  by code_simp

lemma put_hat_no_removal: "\<not> re_test removal_pattern ''put a hat on the dog''"
  by code_simp

lemma put_hat_no_replace: "\<not> re_test replace_pattern ''put a hat on the dog''"
  by code_simp

lemma put_hat_add: "re_test add_pattern ''put a hat on the dog''"
  by code_simp

lemma replace_sky_lower:
  "toLowerCase ''Replace the sky with a sunset'' = ''replace the sky with a sunset''"
  by code_simp

lemma replace_sky_no_removal: "\<not> re_test removal_pattern ''replace the sky with a sunset''"
  by code_simp

lemma replace_sky_replace: "re_test replace_pattern ''replace the sky with a sunset''"
  by code_simp

lemma remove_sofa_lower:
  "toLowerCase ''Remove the sofa and replace it with a chair''
     = ''remove the sofa and replace it with a chair''"
  by code_simp

lemma remove_sofa_removal:
  "re_test removal_pattern ''remove the sofa and replace it with a chair''"
  by code_simp

lemma remove_sofa_replace:
  "re_test replace_pattern ''remove the sofa and replace it with a chair''"
  by code_simp

lemma swap_colors_lower:
  "toLowerCase ''go to the left and swap colors'' = ''go to the left and swap colors''"
  by code_simp

lemma swap_colors_classify:
  "fst (classify ''go to the left and swap colors'' ''go to the left and swap colors''
          DEFAULT_FIBO_PARAMS True) = style_transfer"
proof -
  have "\<not> re_test removal_pattern ''go to the left and swap colors''" by code_simp
  moreover have "\<not> re_test replace_pattern ''go to the left and swap colors''" by code_simp
  moreover have "\<not> re_test add_pattern ''go to the left and swap colors''" by code_simp
  moreover have "\<not> re_test camera_pattern ''go to the left and swap colors''" by code_simp
  ultimately show ?thesis by (simp add: classify_def)
qed

lemma remove_hat_lower:
  "toLowerCase ''remove the hat and add a scarf'' = ''remove the hat and add a scarf''"
  by code_simp

lemma remove_hat_removal: "re_test removal_pattern ''remove the hat and add a scarf''"
  by code_simp

lemma remove_hat_add: "re_test add_pattern ''remove the hat and add a scarf''"
  by code_simp

subsection \<open>The replace branch\<close>

lemma remove_sofa_verb_then_connector:
  "verb_then_connector ''remove the sofa and replace it with a chair''"
  using remove_sofa_replace by (simp add: replace_pattern_meaning)

lemma swap_colors_whole_words:
  "whole_word replace_verbs ''go to the left and swap colors''"
  "whole_word connectors ''go to the left and swap colors''"
proof -
  have "re_test (cat [WordB, Group (words replace_verbs), WordB])
          ''go to the left and swap colors''"
    by code_simp
  moreover have "replace_verbs \<noteq> []"
    by (simp add: replace_verbs_def)
  ultimately show "whole_word replace_verbs ''go to the left and swap colors''"
    using keyword_pattern_iff by blast
  have "re_test (cat [WordB, Group (words connectors), WordB])
          ''go to the left and swap colors''"
    by code_simp
  moreover have "connectors \<noteq> []"
    by (simp add: connectors_def)
  ultimately show "whole_word connectors ''go to the left and swap colors''"
    using keyword_pattern_iff by blast
qed

text \<open>
  Claim C3, as stated: every message that contains a replace-verb and a connector is
  classified \<open>inpaint_replace\<close>, wherever the two words stand and whatever other
  keywords there are. The code does not do that. A message that also has a removal
  verb is classified \<open>inpaint_remove\<close>, because the removal branch is tested first;
  and a message whose only connector stands before the verb does not match the
  replace pattern at all.
\<close>

theorem replace_anywhere_counterexample:
  "verb_then_connector (toLowerCase ''Remove the sofa and replace it with a chair'') \<and>
   operation (mockAgentResponse ''Remove the sofa and replace it with a chair''
                DEFAULT_FIBO_PARAMS True) = inpaint_remove \<and>
   operation (mockAgentResponse ''Remove the sofa and replace it with a chair''
                DEFAULT_FIBO_PARAMS True) \<noteq> inpaint_replace \<and>
   whole_word replace_verbs (toLowerCase ''go to the left and swap colors'') \<and>
   whole_word connectors (toLowerCase ''go to the left and swap colors'') \<and>
   operation (mockAgentResponse ''go to the left and swap colors''
                DEFAULT_FIBO_PARAMS True) = style_transfer \<and>
   operation (mockAgentResponse ''go to the left and swap colors''
                DEFAULT_FIBO_PARAMS True) \<noteq> inpaint_replace"
proof -
  have "operation (mockAgentResponse ''Remove the sofa and replace it with a chair''
                DEFAULT_FIBO_PARAMS True) = inpaint_remove"
    by (simp add: mock_operation remove_sofa_lower classify_remove [OF remove_sofa_removal])
  moreover have "operation (mockAgentResponse ''go to the left and swap colors''
                DEFAULT_FIBO_PARAMS True) = style_transfer"
    by (simp add: mock_operation swap_colors_lower swap_colors_classify)
  ultimately show ?thesis
    by (simp add: remove_sofa_lower swap_colors_lower remove_sofa_verb_then_connector
        swap_colors_whole_words)
qed

text \<open>
  Claim C3, amended. Every message whose lower-cased text has no removal verb
  (remove, delete, erase, get rid of, clear, eliminate) as a whole word, and has a
  replace-verb as a whole word followed, later and before any line break, by a
  connector as a whole word, is classified \<open>inpaint_replace\<close>, with or without a mask
  and whatever else the message contains. By \<open>removal_pattern_meaning\<close> and
  \<open>replace_pattern_meaning\<close> these are the conditions the two regular expressions
  of the source test.
\<close>

theorem replace_branch_classification:
  "\<not> whole_word removal_verbs (toLowerCase m) \<and> verb_then_connector (toLowerCase m) \<longrightarrow>
     operation (mockAgentResponse m p h) = inpaint_replace"
  by (simp add: mock_operation classify_replace removal_pattern_meaning replace_pattern_meaning)

theorem replace_branch_classification_witness:
  "operation (mockAgentResponse ''Replace the sky with a sunset'' DEFAULT_FIBO_PARAMS True)
     = inpaint_replace \<and>
   operation (mockAgentResponse ''Replace the sky with a sunset'' DEFAULT_FIBO_PARAMS False)
     = inpaint_replace"
proof -
  have a: "\<not> whole_word removal_verbs (toLowerCase ''Replace the sky with a sunset'')"
    using replace_sky_no_removal
    by (simp add: replace_sky_lower removal_pattern_meaning)
  have b: "verb_then_connector (toLowerCase ''Replace the sky with a sunset'')"
    using replace_sky_replace
    by (simp add: replace_sky_lower replace_pattern_meaning)
  from a b
    replace_branch_classification [of "''Replace the sky with a sunset''" DEFAULT_FIBO_PARAMS True]
    replace_branch_classification [of "''Replace the sky with a sunset''" DEFAULT_FIBO_PARAMS False]
  show ?thesis by blast
qed

subsection \<open>The add branch\<close>

text \<open>
  Claim C4. A message whose lower-cased text matches the add pattern and neither the
  removal nor the replace pattern is classified \<open>inpaint_add\<close> when a mask is present
  and \<open>style_transfer\<close> when not. In particular "add flowers here" is
  \<open>style_transfer\<close> without a mask and \<open>inpaint_add\<close> with one, for every snapshot.
  What matching each pattern means for the text is \<open>add_pattern_meaning\<close>,
  \<open>removal_pattern_meaning\<close> and \<open>replace_pattern_meaning\<close>.
\<close>

theorem add_branch_classification:
  "(\<not> re_test removal_pattern (toLowerCase m) \<and> \<not> re_test replace_pattern (toLowerCase m) \<and>
    re_test add_pattern (toLowerCase m) \<longrightarrow>
      operation (mockAgentResponse m p h) = (if h then inpaint_add else style_transfer)) \<and>
   operation (mockAgentResponse ''add flowers here'' p False) = style_transfer \<and>
   operation (mockAgentResponse ''add flowers here'' p True) = inpaint_add"
proof (intro conjI impI)
  assume "\<not> re_test removal_pattern (toLowerCase m) \<and>
    \<not> re_test replace_pattern (toLowerCase m) \<and> re_test add_pattern (toLowerCase m)"
  then show "operation (mockAgentResponse m p h) = (if h then inpaint_add else style_transfer)"
    by (simp add: mock_operation classify_add_operation)
next
  show "operation (mockAgentResponse ''add flowers here'' p False) = style_transfer"
    by (simp add: mock_operation add_flowers_lower
        classify_add_operation [OF add_flowers_no_removal add_flowers_no_replace add_flowers_add])
next
  show "operation (mockAgentResponse ''add flowers here'' p True) = inpaint_add"
    by (simp add: mock_operation add_flowers_lower
        classify_add_operation [OF add_flowers_no_removal add_flowers_no_replace add_flowers_add])
qed

theorem add_branch_classification_witness:
  "operation (mockAgentResponse ''Put a Hat on the dog'' DEFAULT_FIBO_PARAMS True) = inpaint_add \<and>
   operation (mockAgentResponse ''Put a Hat on the dog'' DEFAULT_FIBO_PARAMS False)
     = style_transfer"
  using
    add_branch_classification [of "''Put a Hat on the dog''" DEFAULT_FIBO_PARAMS True]
    add_branch_classification [of "''Put a Hat on the dog''" DEFAULT_FIBO_PARAMS False]
    put_hat_no_removal put_hat_no_replace put_hat_add
  by (simp add: put_hat_lower)

text \<open>
  Claim C10, as stated: every message that matches the add pattern, resolved without a
  mask, is classified \<open>style_transfer\<close> with the "Add ... in the marked area" prompt.
  The code does not do that for a message that also matches the removal pattern: the
  removal branch is tested first, the operation is \<open>inpaint_remove\<close> and the mask gate
  fires.
\<close>

theorem add_without_mask_counterexample:
  "re_test add_pattern (toLowerCase ''remove the hat and add a scarf'') \<and>
   operation (mockAgentResponse ''remove the hat and add a scarf'' DEFAULT_FIBO_PARAMS False)
     = inpaint_remove \<and>
   operation (mockAgentResponse ''remove the hat and add a scarf'' DEFAULT_FIBO_PARAMS False)
     \<noteq> style_transfer \<and>
   needsMask (mockAgentResponse ''remove the hat and add a scarf'' DEFAULT_FIBO_PARAMS False)"
  by (simp add: mock_operation mock_needsMask remove_hat_lower remove_hat_add
      classify_remove [OF remove_hat_removal] mask_operations_def)

text \<open>
  Claim C10, amended. For every message whose lower-cased text matches the add pattern
  and neither the removal nor the replace pattern, resolved without a mask: the
  operation is \<open>style_transfer\<close>, \<open>needsMask\<close> is false, the subject description is the
  extracted phrase (the trimmed first capture of the add capture pattern, or the raw
  message when that pattern does not match), the prompt is "Add", the phrase,
  "in the marked area, blend seamlessly", and the response is the add branch's own
  text, which speaks of the marked area: the mask gate does not replace it.
\<close>

theorem add_without_mask_mentions_marked_area:
  "\<not> re_test removal_pattern (toLowerCase m) \<and> \<not> re_test replace_pattern (toLowerCase m) \<and>
   re_test add_pattern (toLowerCase m) \<longrightarrow>
     operation (mockAgentResponse m p False) = style_transfer \<and>
     needsMask (mockAgentResponse m p False) = False \<and>
     subject_description (params (mockAgentResponse m p False)) =
       Some (case re_match add_capture (toLowerCase m) of
               Some (g1 # _) \<Rightarrow> trim g1 | _ \<Rightarrow> m) \<and>
     prompt (mockAgentResponse m p False) =
       ''Add '' @ (case re_match add_capture (toLowerCase m) of
                     Some (g1 # _) \<Rightarrow> trim g1 | _ \<Rightarrow> m)
         @ '' in the marked area, blend seamlessly'' \<and>
     response (mockAgentResponse m p False) =
       sparkles @ '' I'll add '' @ dquote
         @ (case re_match add_capture (toLowerCase m) of
              Some (g1 # _) \<Rightarrow> trim g1 | _ \<Rightarrow> m)
         @ dquote @ '' to the marked area. Click Generate!''"
proof
  assume "\<not> re_test removal_pattern (toLowerCase m) \<and>
    \<not> re_test replace_pattern (toLowerCase m) \<and> re_test add_pattern (toLowerCase m)"
  then have c: "classify m (toLowerCase m) p False =
     (let sd = (case re_match add_capture (toLowerCase m) of
                  Some (g1 # _) \<Rightarrow> trim g1 | _ \<Rightarrow> m)
      in (if False then inpaint_add else style_transfer,
          p\<lparr>subject_description := Some sd\<rparr>,
          ''Add '' @ sd @ '' in the marked area, blend seamlessly'',
          sparkles @ '' I'll add '' @ dquote @ sd @ dquote
            @ '' to the marked area. Click Generate!''))"
    using classify_add by blast
  have ungated: "fst (classify m (toLowerCase m) p False) \<notin> set mask_operations"
    by (simp add: c Let_def mask_operations_def)
  show "operation (mockAgentResponse m p False) = style_transfer \<and>
     needsMask (mockAgentResponse m p False) = False \<and>
     subject_description (params (mockAgentResponse m p False)) =
       Some (case re_match add_capture (toLowerCase m) of
               Some (g1 # _) \<Rightarrow> trim g1 | _ \<Rightarrow> m) \<and>
     prompt (mockAgentResponse m p False) =
       ''Add '' @ (case re_match add_capture (toLowerCase m) of
                     Some (g1 # _) \<Rightarrow> trim g1 | _ \<Rightarrow> m)
         @ '' in the marked area, blend seamlessly'' \<and>
     response (mockAgentResponse m p False) =
       sparkles @ '' I'll add '' @ dquote
         @ (case re_match add_capture (toLowerCase m) of
              Some (g1 # _) \<Rightarrow> trim g1 | _ \<Rightarrow> m)
         @ dquote @ '' to the marked area. Click Generate!''"
    using ungated
    by (simp add: mock_operation mock_needsMask mock_subject_description mock_prompt
        mock_response_ungated c Let_def)
qed

text \<open>
  Two messages outside ASCII, for the phrase: a no-break space \<open>U+00A0\<close> after the
  verb is white space to \<open>\s\<close>, and \<open>toLowerCase\<close> turns \<open>U+00C9\<close> into \<open>U+00E9\<close>.
\<close>

lemma nbsp_flowers_lower:
  "toLowerCase (''add'' @ [CHR 0xA0] @ ''flowers'') = ''add'' @ [CHR 0xA0] @ ''flowers''"
  by code_simp

lemma nbsp_flowers_no_removal:
  "\<not> re_test removal_pattern (''add'' @ [CHR 0xA0] @ ''flowers'')"
  by code_simp

lemma nbsp_flowers_no_replace:
  "\<not> re_test replace_pattern (''add'' @ [CHR 0xA0] @ ''flowers'')"
  by code_simp

lemma nbsp_flowers_add: "re_test add_pattern (''add'' @ [CHR 0xA0] @ ''flowers'')"
  by code_simp

lemma nbsp_flowers_capture:
  "re_match add_capture (''add'' @ [CHR 0xA0] @ ''flowers'') = Some [''flowers'']"
  by code_simp

lemma cafe_lower: "toLowerCase (''ADD A CAF'' @ [CHR 0xC9]) = ''add a caf'' @ [CHR 0xE9]"
  by code_simp

lemma cafe_no_removal: "\<not> re_test removal_pattern (''add a caf'' @ [CHR 0xE9])"
  by code_simp

lemma cafe_no_replace: "\<not> re_test replace_pattern (''add a caf'' @ [CHR 0xE9])"
  by code_simp

lemma cafe_add: "re_test add_pattern (''add a caf'' @ [CHR 0xE9])"
  by code_simp

lemma cafe_capture:
  "re_match add_capture (''add a caf'' @ [CHR 0xE9]) = Some [''caf'' @ [CHR 0xE9]]"
  by code_simp

theorem add_without_mask_mentions_marked_area_witness:
  "operation (mockAgentResponse ''add flowers here'' DEFAULT_FIBO_PARAMS False) = style_transfer \<and>
   needsMask (mockAgentResponse ''add flowers here'' DEFAULT_FIBO_PARAMS False) = False \<and>
   prompt (mockAgentResponse ''add flowers here'' DEFAULT_FIBO_PARAMS False) =
     ''Add flowers in the marked area, blend seamlessly'' \<and>
   response (mockAgentResponse ''add flowers here'' DEFAULT_FIBO_PARAMS False) =
     sparkles @ '' I'll add '' @ dquote @ ''flowers'' @ dquote
       @ '' to the marked area. Click Generate!'' \<and>
   subject_description (params (mockAgentResponse (''add'' @ [CHR 0xA0] @ ''flowers'')
       DEFAULT_FIBO_PARAMS False)) = Some ''flowers'' \<and>
   prompt (mockAgentResponse (''add'' @ [CHR 0xA0] @ ''flowers'') DEFAULT_FIBO_PARAMS False) =
     ''Add flowers in the marked area, blend seamlessly'' \<and>
   subject_description (params (mockAgentResponse (''ADD A CAF'' @ [CHR 0xC9])
       DEFAULT_FIBO_PARAMS False)) = Some (''caf'' @ [CHR 0xE9]) \<and>
   prompt (mockAgentResponse (''ADD A CAF'' @ [CHR 0xC9]) DEFAULT_FIBO_PARAMS False) =
     ''Add caf'' @ [CHR 0xE9] @ '' in the marked area, blend seamlessly''"
proof -
  have t: "trim ''flowers'' = ''flowers''"
    by code_simp
  have u: "trim [CHR ''c'', CHR ''a'', CHR ''f'', CHR 0xE9]
             = [CHR ''c'', CHR ''a'', CHR ''f'', CHR 0xE9]"
    by code_simp
  have first:
    "operation (mockAgentResponse ''add flowers here'' DEFAULT_FIBO_PARAMS False) = style_transfer \<and>
     needsMask (mockAgentResponse ''add flowers here'' DEFAULT_FIBO_PARAMS False) = False \<and>
     prompt (mockAgentResponse ''add flowers here'' DEFAULT_FIBO_PARAMS False) =
       ''Add flowers in the marked area, blend seamlessly'' \<and>
     response (mockAgentResponse ''add flowers here'' DEFAULT_FIBO_PARAMS False) =
       sparkles @ '' I'll add '' @ dquote @ ''flowers'' @ dquote
         @ '' to the marked area. Click Generate!''"
    using add_without_mask_mentions_marked_area [of "''add flowers here''" DEFAULT_FIBO_PARAMS]
      add_flowers_no_removal add_flowers_no_replace add_flowers_add
    by (simp add: add_flowers_lower add_flowers_capture t)
  have second:
    "subject_description (params (mockAgentResponse (''add'' @ [CHR 0xA0] @ ''flowers'')
         DEFAULT_FIBO_PARAMS False)) = Some ''flowers'' \<and>
     prompt (mockAgentResponse (''add'' @ [CHR 0xA0] @ ''flowers'') DEFAULT_FIBO_PARAMS False) =
       ''Add flowers in the marked area, blend seamlessly''"
    using add_without_mask_mentions_marked_area
        [of "''add'' @ [CHR 0xA0] @ ''flowers''" DEFAULT_FIBO_PARAMS]
      nbsp_flowers_no_removal nbsp_flowers_no_replace nbsp_flowers_add
    unfolding nbsp_flowers_lower nbsp_flowers_capture
    by (simp add: t)
  have third:
    "subject_description (params (mockAgentResponse (''ADD A CAF'' @ [CHR 0xC9])
         DEFAULT_FIBO_PARAMS False)) = Some (''caf'' @ [CHR 0xE9]) \<and>
     prompt (mockAgentResponse (''ADD A CAF'' @ [CHR 0xC9]) DEFAULT_FIBO_PARAMS False) =
       ''Add caf'' @ [CHR 0xE9] @ '' in the marked area, blend seamlessly''"
    using add_without_mask_mentions_marked_area
        [of "''ADD A CAF'' @ [CHR 0xC9]" DEFAULT_FIBO_PARAMS]
      cafe_no_removal cafe_no_replace cafe_add
    unfolding cafe_lower cafe_capture
    by (simp add: u)
  from first second third show ?thesis by blast
qed

end
